theory Spec2Isabelle
  imports Main
begin

section \<open>Data model\<close>

text \<open>
  The task entity, its two enums and the entity's user relation, as
  \<^verbatim>\<open>tasks.service.ts\<close> and the processor read them. Dates are JavaScript
  \<^verbatim>\<open>Date\<close> values: integers, milliseconds since the epoch.
\<close>

datatype TaskStatus = PENDING | IN_PROGRESS | COMPLETED

datatype TaskPriority = LOW | MEDIUM | HIGH

record User =
  user_id :: string
  email :: string
  user_name :: string

text \<open>
  The task entity. The field \<open>user\<close> is the relation: it is filled when a read asks
  for \<^verbatim>\<open>relations: ['user']\<close> (\<open>None\<close> when no user row has the task's
  \<open>userId\<close>), and it is no column of the stored row.
\<close>

record Task =
  task_id :: string
  title :: string
  description :: "string option"
  status :: TaskStatus
  priority :: TaskPriority
  dueDate :: "int option"
  userId :: string
  createdAt :: int
  user :: "User option"

text \<open>
  Modelled from the spec: the enum declaration \<^verbatim>\<open>enums/task-status.enum\<close> is not
  among the sources; its string values are the three the specification names.
\<close>

fun status_string :: "TaskStatus \<Rightarrow> string" where
  "status_string PENDING = ''pending''"
| "status_string IN_PROGRESS = ''in_progress''"
| "status_string COMPLETED = ''completed''"

definition TaskStatus_values :: "TaskStatus list" where
  "TaskStatus_values = [PENDING, IN_PROGRESS, COMPLETED]"

text \<open>
  Modelled from the spec: the class \<^verbatim>\<open>TaskResponseDto\<close> is not among the sources; it
  is taken to copy the entity, the user relation included, which is what
  \<^verbatim>\<open>handleOverdueTasks\<close> reads from it.
\<close>

definition TaskResponseDto :: "Task \<Rightarrow> Task" where
  "TaskResponseDto t = t"

subsection \<open>Job payloads, queue, mail, log\<close>

text \<open>A JavaScript value of a job payload; \<open>JUndefined\<close> is a missing field.\<close>

datatype jsvalue = JUndefined | JNull | JBool bool | JNum int | JStr string

fun falsy :: "jsvalue \<Rightarrow> bool" where
  "falsy JUndefined = True"
| "falsy JNull = True"
| "falsy (JBool b) = (\<not> b)"
| "falsy (JNum n) = (n = 0)"
| "falsy (JStr s) = (s = [])"

type_synonym jsobject = "(string \<times> jsvalue) list"

definition jsget :: "jsobject \<Rightarrow> string \<Rightarrow> jsvalue" where
  "jsget obj k = (case map_of obj k of None \<Rightarrow> JUndefined | Some v \<Rightarrow> v)"

record JobsOptions =
  attempts :: nat
  backoff :: "(string \<times> nat) option"

text \<open>What \<^verbatim>\<open>Queue.add(name, data, opts)\<close> puts on the queue.\<close>

record QueuedJob =
  q_name :: string
  q_data :: jsobject
  q_opts :: JobsOptions

datatype LogLevel = Debug | Verbose | Log | Warn | Error

text \<open>
  A log line: its level and the fixed text of the message (the interpolated values are
  left out of the text).
\<close>

type_synonym LogEntry = "LogLevel \<times> string"

text \<open>One call of \<^verbatim>\<open>sendMail\<close>: the task it is about, the recipient, the subject,
  and whether the call succeeded.\<close>

record Mail =
  mail_task :: string
  mail_to :: string
  mail_subject :: string
  mail_sent :: bool

text \<open>
  One call of the repository's \<^verbatim>\<open>findAndCount\<close>: skip, take, and the rows it
  returned (\<open>None\<close> when the call failed).
\<close>

record PageRead =
  rd_skip :: nat
  rd_take :: nat
  rd_result :: "Task list option"

text \<open>
  Everything the services act on: the task table, the user table, the queue, and the
  traces of the mailer's, the repository's and the logger's calls.
\<close>

record world =
  store :: "Task list"
  users :: "User list"
  queue :: "QueuedJob list"
  outbox :: "Mail list"
  reads :: "PageRead list"
  logs :: "LogEntry list"

datatype error =
    UnrecoverableError string
  | NotFoundException string
  | StoreError
  | QueueError

definition logger :: "LogLevel \<Rightarrow> string \<Rightarrow> world \<Rightarrow> world" where
  "logger lvl msg w = w\<lparr>logs := logs w @ [(lvl, msg)]\<rparr>"

section \<open>The task repository\<close>

text \<open>
  TypeORM find options over the task table. A field that is \<open>None\<close> is absent or
  \<^verbatim>\<open>undefined\<close>, and puts no condition on the rows. \<open>w_ids\<close> is \<^verbatim>\<open>In(ids)\<close>
  (one id for an equality), \<open>w_title\<close> is \<^verbatim>\<open>Like('%t%')\<close>, \<open>w_dueDate\<close> is
  \<^verbatim>\<open>Between(lo, hi)\<close>, which includes both ends.
\<close>

record TaskWhere =
  w_ids :: "string list option"
  w_title :: "string option"
  w_status :: "TaskStatus option"
  w_priority :: "TaskPriority option"
  w_dueDate :: "(int \<times> int) option"
  w_userId :: "string option"

definition no_where :: TaskWhere where
  "no_where = \<lparr>w_ids = None, w_title = None, w_status = None, w_priority = None,
     w_dueDate = None, w_userId = None\<rparr>"

text \<open>
  The SQL operator \<^verbatim>\<open>LIKE\<close>, pattern first: \<^verbatim>\<open>%\<close> stands for any run of
  characters and \<^verbatim>\<open>_\<close> for any one character, also when they come from the title
  of the filter. The escape character and the case rule, which differ from one database
  to another, are left out.
\<close>

fun Like :: "string \<Rightarrow> string \<Rightarrow> bool" where
  "Like [] s = (s = [])"
| "Like (p # ps) [] = (p = CHR ''%'' \<and> Like ps [])"
| "Like (p # ps) (c # cs) =
     (if p = CHR ''%'' then Like ps (c # cs) \<or> Like (p # ps) cs
      else (p = CHR ''_'' \<or> p = c) \<and> Like ps cs)"

definition matches :: "TaskWhere \<Rightarrow> Task \<Rightarrow> bool" where
  "matches wh t =
     ((case w_ids wh of None \<Rightarrow> True | Some ids \<Rightarrow> List.member ids (task_id t))
    \<and> (case w_title wh of None \<Rightarrow> True | Some s \<Rightarrow> Like (''%'' @ s @ ''%'') (title t))
    \<and> (case w_status wh of None \<Rightarrow> True | Some s \<Rightarrow> status t = s)
    \<and> (case w_priority wh of None \<Rightarrow> True | Some p \<Rightarrow> priority t = p)
    \<and> (case w_dueDate wh of None \<Rightarrow> True
        | Some (lo, hi) \<Rightarrow> (case dueDate t of None \<Rightarrow> False | Some d \<Rightarrow> lo \<le> d \<and> d \<le> hi))
    \<and> (case w_userId wh of None \<Rightarrow> True | Some u \<Rightarrow> userId t = u))"

text \<open>
  \<^verbatim>\<open>findAndCount({where, skip, take, order: {createdAt: 'DESC'}})\<close>: the matching rows,
  newest first, cut to the page, and the count of all matching rows.
\<close>

definition find_rows :: "TaskWhere \<Rightarrow> Task list \<Rightarrow> Task list" where
  "find_rows wh rows = sort_key (\<lambda>t. - createdAt t) (filter (matches wh) rows)"

definition load_user :: "User list \<Rightarrow> Task \<Rightarrow> Task" where
  "load_user us t = t\<lparr>user := find (\<lambda>u. user_id u = userId t) us\<rparr>"

definition findAndCount ::
  "TaskWhere \<Rightarrow> nat \<Rightarrow> nat \<Rightarrow> User list \<Rightarrow> Task list \<Rightarrow> Task list \<times> nat" where
  "findAndCount wh skip tk us rows =
     (map (load_user us) (take tk (drop skip (find_rows wh rows))),
      length (find_rows wh rows))"

section \<open>TasksService.findAll\<close>

record TaskFilterDto =
  f_page :: "nat option"
  f_limit :: "nat option"
  f_title :: "string option"
  f_status :: "TaskStatus option"
  f_priority :: "TaskPriority option"
  f_dueDateBefore :: "int option"
  f_dueDateAfter :: "int option"
  f_userId :: "string option"

text \<open>\<^verbatim>\<open>totalPages\<close> is \<^verbatim>\<open>Math.ceil(total / limit)\<close>.\<close>

record PaginatedResponseDto =
  data :: "Task list"
  total :: nat
  page :: nat
  totalPages :: nat
  limit :: nat

text \<open>\<^verbatim>\<open>Number(x) || d\<close> on a count: a missing or zero value gives the default.\<close>

definition number_or :: "nat option \<Rightarrow> nat \<Rightarrow> nat" where
  "number_or x d = (case x of None \<Rightarrow> d | Some n \<Rightarrow> if n = 0 then d else n)"

definition truthy_string :: "string option \<Rightarrow> string option" where
  "truthy_string x = (case x of None \<Rightarrow> None | Some s \<Rightarrow> if s = [] then None else Some s)"

text \<open>\<^verbatim>\<open>new Date('1900-01-01')\<close> and \<^verbatim>\<open>new Date('2100-01-01')\<close>, in milliseconds.\<close>

definition date_1900 :: int where
  "date_1900 = - 2208988800000"

definition date_2100 :: int where
  "date_2100 = 4102444800000"

definition findAll_where :: "TaskFilterDto \<Rightarrow> string option \<Rightarrow> bool \<Rightarrow> TaskWhere" where
  "findAll_where queryDto loggedInUserId isAdmin =
     \<lparr>w_ids = None,
      w_title = truthy_string (f_title queryDto),
      w_status = f_status queryDto,
      w_priority = f_priority queryDto,
      w_dueDate =
        (case (f_dueDateBefore queryDto, f_dueDateAfter queryDto) of
           (Some b, Some a) \<Rightarrow> Some (a, b)
         | (Some b, None) \<Rightarrow> Some (date_1900, b)
         | (None, Some a) \<Rightarrow> Some (a, date_2100)
         | (None, None) \<Rightarrow> None),
      w_userId =
        (if \<not> isAdmin then loggedInUserId
         else truthy_string (f_userId queryDto))\<rparr>"

text \<open>
  The environment of one run of the processor: the clock (\<^verbatim>\<open>new Date()\<close> at the
  k-th read of a page), whether the k-th read of the store succeeds, and whether the
  k-th call of \<^verbatim>\<open>sendMail\<close> succeeds. The k of a call is the number of calls
  traced before it.
\<close>

record env =
  clock :: "nat \<Rightarrow> int"
  db_ok :: "nat \<Rightarrow> bool"
  mail_ok :: "nat \<Rightarrow> bool"

definition findAll ::
  "env \<Rightarrow> TaskFilterDto \<Rightarrow> string option \<Rightarrow> bool \<Rightarrow> world \<Rightarrow> (error + PaginatedResponseDto) \<times> world" where
  "findAll e queryDto loggedInUserId isAdmin w =
     (let w1 = logger Log ''Fetching tasks with query'' w;
          pageNumber = number_or (f_page queryDto) 1;
          limitNumber = number_or (f_limit queryDto) 10;
          skip = (pageNumber - 1) * limitNumber;
          wh = findAll_where queryDto loggedInUserId isAdmin
      in if \<not> db_ok e (length (reads w1)) then
           (Inl StoreError,
            w1\<lparr>reads := reads w1 @
                  [\<lparr>rd_skip = skip, rd_take = limitNumber, rd_result = None\<rparr>]\<rparr>)
         else
           (case findAndCount wh skip limitNumber (users w1) (store w1) of
              (tasks, cnt) \<Rightarrow>
                (let w2 = w1\<lparr>reads := reads w1 @
                            [\<lparr>rd_skip = skip, rd_take = limitNumber, rd_result = Some tasks\<rparr>]\<rparr>;
                     w3 = logger Log ''Found tasks'' w2
                 in (Inr \<lparr>data = map TaskResponseDto tasks, total = cnt, page = pageNumber,
                          totalPages = (cnt + limitNumber - 1) div limitNumber,
                          limit = limitNumber\<rparr>, w3))))"

section \<open>The overdue sweep (TaskProcessorService.handleOverdueTasks)\<close>

definition batchSize :: nat where
  "batchSize = 100"

text \<open>
  The body of the \<^verbatim>\<open>for (const task of overdueTasks.data)\<close> loop: a task with a user
  and a non-empty email gets one call of \<^verbatim>\<open>sendMail\<close>, whose failure is caught and
  logged; any other task is skipped with a warning. The html body of the mail is left
  out; it formats the task's due date, which every row of the sweep's query has.
\<close>

definition notifyTask :: "env \<Rightarrow> Task \<Rightarrow> world \<Rightarrow> world" where
  "notifyTask e task w =
     (case user task of
        None \<Rightarrow> logger Warn ''Task has no associated user or email for notification. Skipping email.'' w
      | Some u \<Rightarrow>
          if email u = [] then
            logger Warn ''Task has no associated user or email for notification. Skipping email.'' w
          else
            (let emailSubject = ''Action Required: Your Task \"'' @ title task @ ''\" is Overdue!'';
                 sent = mail_ok e (length (outbox w));
                 w1 = w\<lparr>outbox := outbox w @
                        [\<lparr>mail_task = task_id task, mail_to = email u,
                          mail_subject = emailSubject, mail_sent = sent\<rparr>]\<rparr>
             in if sent then logger Verbose ''Directly sent overdue email'' w1
                else logger Error ''Failed to send email directly'' w1))"

text \<open>The query of one page of the sweep, \<open>offset\<close> rows in, read at time \<open>now\<close>.\<close>

definition overdue_query :: "int \<Rightarrow> nat \<Rightarrow> TaskFilterDto" where
  "overdue_query now offset =
     \<lparr>f_page = Some (offset div batchSize + 1), f_limit = Some batchSize,
      f_title = None, f_status = Some PENDING, f_priority = None,
      f_dueDateBefore = Some now, f_dueDateAfter = None, f_userId = None\<rparr>"

text \<open>
  The \<^verbatim>\<open>while (hasMoreTasks)\<close> loop, with its variables \<open>offset\<close> and
  \<open>totalOverdueProcessed\<close>. It returns when a page is empty (\<^verbatim>\<open>break\<close>), when a page
  is shorter than \<open>batchSize\<close> (\<open>hasMoreTasks = false\<close>), or when a read throws.
\<close>

function overdue_loop :: "env \<Rightarrow> nat \<Rightarrow> nat \<Rightarrow> world \<Rightarrow> (error + nat) \<times> world" where
  "overdue_loop e offset totalOverdueProcessed w =
     (case findAll e (overdue_query (clock e (length (reads w))) offset) None False w of
        (Inl err, w1) \<Rightarrow> (Inl err, w1)
      | (Inr overdueTasks, w1) \<Rightarrow>
          if length (data overdueTasks) = 0 then (Inr totalOverdueProcessed, w1)
          else
            (let w2 = fold (notifyTask e) (data overdueTasks) w1;
                 w3 = logger Log ''Processed batch of overdue tasks.'' w2
             in if length (data overdueTasks) < batchSize
                then (Inr (totalOverdueProcessed + length (data overdueTasks)), w3)
                else overdue_loop e (offset + batchSize)
                       (totalOverdueProcessed + length (data overdueTasks)) w3))"
  by pat_completeness auto
termination
proof (relation "measure (\<lambda>(e, offset, n, w). length (store w) + batchSize - (offset div batchSize) * batchSize)")
  show "wf (measure (\<lambda>(e, offset, n, w). length (store w) + batchSize - (offset div batchSize) * batchSize))"
    by simp
next
  fix e :: env and offset totalOverdueProcessed :: nat and w x1 w1 and r :: PaginatedResponseDto and w2 w3
  assume call: "(x1, w1) = findAll e (overdue_query (clock e (length (reads w))) offset) None False w"
    and r: "x1 = Inr r"
    and full: "\<not> length (data r) < batchSize"
    and w2: "w2 = fold (notifyTask e) (data r) w1"
    and w3: "w3 = logger Log ''Processed batch of overdue tasks.'' w2"
  let ?rows = "find_rows (findAll_where (overdue_query (clock e (length (reads w))) offset) None False) (store w)"
  from call r have eq: "findAll e (overdue_query (clock e (length (reads w))) offset) None False w = (Inr r, w1)"
    by simp
  have st: "store w1 = store w"
    using eq by (auto simp: findAll_def Let_def findAndCount_def logger_def split: if_splits)
  have "length (data r) = length (take batchSize (drop ((offset div batchSize) * batchSize) ?rows))"
    using eq
    by (auto simp: findAll_def Let_def findAndCount_def logger_def overdue_query_def
        number_or_def batchSize_def split: if_splits)
  with full have "(offset div batchSize) * batchSize + batchSize \<le> length ?rows"
    by (simp add: batchSize_def)
  moreover have "length ?rows \<le> length (store w)"
    by (simp add: find_rows_def)
  ultimately have le: "(offset div batchSize) * batchSize + batchSize \<le> length (store w)"
    by (rule le_trans)
  have keep: "store (fold (notifyTask e) ts v) = store v" for ts v
    by (induction ts arbitrary: v)
      (simp_all add: notifyTask_def logger_def Let_def split: option.splits)
  have st3: "store w3 = store w"
    using st w2 w3 by (simp add: keep logger_def)
  have "(offset + batchSize) div batchSize = offset div batchSize + 1"
    by (simp add: batchSize_def)
  then have "((offset + batchSize) div batchSize) * batchSize = (offset div batchSize) * batchSize + batchSize"
    by simp
  with le st3
  show "((e, offset + batchSize, totalOverdueProcessed + length (data r), w3),
         (e, offset, totalOverdueProcessed, w))
        \<in> measure (\<lambda>(e, offset, n, w). length (store w) + batchSize - (offset div batchSize) * batchSize)"
    by (simp add: batchSize_def)
qed

declare overdue_loop.simps [simp del]

datatype JobResult =
    StatusUpdated string TaskStatus
  | OverdueCompleted nat

text \<open>
  \<^verbatim>\<open>handleOverdueTasks\<close>: the loop from offset 0; its result is
  \<^verbatim>\<open>{success: true, message: ... Total: totalOverdueProcessed}\<close>, here
  \<open>OverdueCompleted totalOverdueProcessed\<close>. An error of the loop is logged and thrown
  again.
\<close>

definition handleOverdueTasks :: "env \<Rightarrow> world \<Rightarrow> (error + JobResult) \<times> world" where
  "handleOverdueTasks e w =
     (case overdue_loop e 0 0 (logger Debug ''Processing overdue tasks notification.'' w) of
        (Inr totalOverdueProcessed, w1) \<Rightarrow>
          (Inr (OverdueCompleted totalOverdueProcessed),
           logger Log ''Finished processing overdue tasks.'' w1)
      | (Inl err, w1) \<Rightarrow>
          (Inl err, logger Error ''Error during overdue tasks processing job'' w1))"

section \<open>The producers (TasksService)\<close>

text \<open>
  The outcome of the external calls of one request: whether the repository's read, its
  write, the queue's \<^verbatim>\<open>add\<close> and the transaction's commit succeed, the primary key
  and the creation time the database gives a new row.

  Modelled from the spec: the entity declaration \<^verbatim>\<open>entities/task.entity\<close> is not among
  the sources; the column defaults of \<open>status\<close> and \<open>priority\<close> are taken as the
  parameters \<open>default_status\<close> and \<open>default_priority\<close>.
\<close>

record io =
  find_ok :: bool
  save_ok :: bool
  add_ok :: bool
  commit_ok :: bool
  new_id :: string
  now :: int
  default_status :: TaskStatus
  default_priority :: TaskPriority

record CreateTaskDto =
  c_title :: string
  c_description :: "string option"
  c_status :: "TaskStatus option"
  c_priority :: "TaskPriority option"
  c_dueDate :: "int option"

text \<open>
  Modelled from the spec: the class \<^verbatim>\<open>UpdateTaskDto\<close> is not among the sources; it is
  taken to hold the fields of \<^verbatim>\<open>CreateTaskDto\<close>, each optional.
\<close>

record UpdateTaskDto =
  u_title :: "string option"
  u_description :: "string option"
  u_status :: "TaskStatus option"
  u_priority :: "TaskPriority option"
  u_dueDate :: "int option"

text \<open>\<^verbatim>\<open>{ attempts: 3, backoff: { type: 'exponential', delay: 1000 } }\<close>\<close>

definition retry_opts :: JobsOptions where
  "retry_opts = \<lparr>attempts = 3, backoff = Some (''exponential'', 1000)\<rparr>"

definition status_update_data :: "string \<Rightarrow> TaskStatus \<Rightarrow> jsobject" where
  "status_update_data tid st = [(''taskId'', JStr tid), (''status'', JStr (status_string st))]"

text \<open>\<^verbatim>\<open>taskQueue.add(name, data, opts)\<close>: the queue is no part of the database.\<close>

definition queue_add ::
  "io \<Rightarrow> string \<Rightarrow> jsobject \<Rightarrow> JobsOptions \<Rightarrow> world \<Rightarrow> (error + unit) \<times> world" where
  "queue_add x name dat opts w =
     (if add_ok x
      then (Inr (), w\<lparr>queue := queue w @ [\<lparr>q_name = name, q_data = dat, q_opts = opts\<rparr>]\<rparr>)
      else (Inl QueueError, w))"

text \<open>
  \<^verbatim>\<open>manager.transaction(callback)\<close>: when the callback throws, the writes to the
  database are rolled back and the error is thrown again; otherwise the transaction
  commits, and a failing commit rolls back as well. Only the task table is under the
  transaction.
\<close>

definition transaction ::
  "io \<Rightarrow> (world \<Rightarrow> (error + 'a) \<times> world) \<Rightarrow> world \<Rightarrow> (error + 'a) \<times> world" where
  "transaction x body w =
     (case body w of
        (Inl err, w1) \<Rightarrow> (Inl err, w1\<lparr>store := store w\<rparr>)
      | (Inr r, w1) \<Rightarrow>
          if commit_ok x then (Inr r, w1) else (Inl StoreError, w1\<lparr>store := store w\<rparr>))"

text \<open>\<^verbatim>\<open>create(Task, {...createTaskDto, userId})\<close> and the insert of \<^verbatim>\<open>save\<close>.\<close>

definition entity_create :: "io \<Rightarrow> CreateTaskDto \<Rightarrow> string \<Rightarrow> Task" where
  "entity_create x dto uid =
     \<lparr>task_id = [], title = c_title dto, description = c_description dto,
      status = (case c_status dto of Some s \<Rightarrow> s | None \<Rightarrow> default_status x),
      priority = (case c_priority dto of Some p \<Rightarrow> p | None \<Rightarrow> default_priority x),
      dueDate = c_dueDate dto, userId = uid, createdAt = now x, user = None\<rparr>"

definition save_insert :: "io \<Rightarrow> Task \<Rightarrow> world \<Rightarrow> (error + Task) \<times> world" where
  "save_insert x task w =
     (if save_ok x
      then (let savedTask = task\<lparr>task_id := new_id x\<rparr>
            in (Inr savedTask, w\<lparr>store := store w @ [savedTask]\<rparr>))
      else (Inl StoreError, w))"

definition create :: "io \<Rightarrow> CreateTaskDto \<Rightarrow> string \<Rightarrow> world \<Rightarrow> (error + Task) \<times> world" where
  "create x createTaskDto uid w =
     transaction x
       (\<lambda>w0.
          case save_insert x (entity_create x createTaskDto uid) w0 of
            (Inl err, w1) \<Rightarrow> (Inl err, w1)
          | (Inr savedTask, w1) \<Rightarrow>
              (case queue_add x ''task-status-update''
                      (status_update_data (task_id savedTask) (status savedTask)) retry_opts w1 of
                 (Inl err, w2) \<Rightarrow> (Inl err, w2)
               | (Inr u, w2) \<Rightarrow>
                   (Inr (TaskResponseDto savedTask),
                    logger Log ''Task created and queued successfully'' w2)))
       (logger Log ''Attempting to create task for user'' w)"

text \<open>
  \<^verbatim>\<open>findOne(id, loggedInUserId, isAdmin)\<close>: the first row with the id (and, for a
  caller who is no admin, the caller's id), with its user relation.
\<close>

definition findOne ::
  "io \<Rightarrow> string \<Rightarrow> string option \<Rightarrow> bool \<Rightarrow> world \<Rightarrow> (error + Task) \<times> world" where
  "findOne x tid loggedInUserId isAdmin w =
     (let w1 = logger Log ''Fetching task with ID'' w;
          whereCondition = no_where\<lparr>w_ids := Some [tid],
             w_userId := (if \<not> isAdmin then loggedInUserId else None)\<rparr>
      in if \<not> find_ok x then (Inl StoreError, w1)
         else
           (case find (matches whereCondition) (store w1) of
              None \<Rightarrow>
                (Inl (NotFoundException (''Task with ID '' @ tid @ '' not found or you do not have access.'')),
                 logger Warn ''Task not found or not accessible.'' w1)
            | Some task \<Rightarrow> (Inr (load_user (users w1) task), logger Log ''Task found'' w1)))"

definition merge :: "Task \<Rightarrow> UpdateTaskDto \<Rightarrow> Task" where
  "merge task dto =
     task\<lparr>title := (case u_title dto of Some v \<Rightarrow> v | None \<Rightarrow> title task),
          description := (case u_description dto of Some v \<Rightarrow> Some v | None \<Rightarrow> description task),
          status := (case u_status dto of Some v \<Rightarrow> v | None \<Rightarrow> status task),
          priority := (case u_priority dto of Some v \<Rightarrow> v | None \<Rightarrow> priority task),
          dueDate := (case u_dueDate dto of Some v \<Rightarrow> Some v | None \<Rightarrow> dueDate task)\<rparr>"

text \<open>\<^verbatim>\<open>save\<close> of an entity that has a row: the row with its id is replaced.\<close>

definition save_update :: "io \<Rightarrow> Task \<Rightarrow> world \<Rightarrow> (error + Task) \<times> world" where
  "save_update x task w =
     (if save_ok x
      then (Inr task,
            w\<lparr>store := map (\<lambda>r. if task_id r = task_id task then task\<lparr>user := None\<rparr> else r) (store w)\<rparr>)
      else (Inl StoreError, w))"

definition update ::
  "io \<Rightarrow> string \<Rightarrow> UpdateTaskDto \<Rightarrow> string \<Rightarrow> bool \<Rightarrow> world \<Rightarrow> (error + Task) \<times> world" where
  "update x tid updateTaskDto loggedInUserId isAdmin w =
     (case findOne x tid (Some loggedInUserId) isAdmin (logger Log ''Updating task with ID'' w) of
        (Inl err, w1) \<Rightarrow> (Inl err, w1)
      | (Inr task, w1) \<Rightarrow>
          (let originalStatus = status task
           in case save_update x (merge task updateTaskDto) w1 of
                (Inl err, w2) \<Rightarrow> (Inl err, w2)
              | (Inr updatedTask, w2) \<Rightarrow>
                  if originalStatus \<noteq> status updatedTask then
                    (case queue_add x ''task-status-update''
                            (status_update_data (task_id updatedTask) (status updatedTask)) retry_opts
                            (logger Log ''Task status changed. Adding job to queue'' w2) of
                       (Inl err, w3) \<Rightarrow> (Inl err, w3)
                     | (Inr u, w3) \<Rightarrow>
                         (Inr (TaskResponseDto updatedTask), logger Log ''Task updated successfully'' w3))
                  else (Inr (TaskResponseDto updatedTask), logger Log ''Task updated successfully'' w2)))"

record BatchResult =
  updated :: nat
  failed :: int

text \<open>
  \<^verbatim>\<open>repository.update(where, {status})\<close>: every matching row gets the status; the
  result is the number of rows affected.
\<close>

definition repository_update ::
  "io \<Rightarrow> TaskWhere \<Rightarrow> TaskStatus \<Rightarrow> world \<Rightarrow> (error + nat) \<times> world" where
  "repository_update x wh st w =
     (if save_ok x
      then (Inr (length (filter (matches wh) (store w))),
            w\<lparr>store := map (\<lambda>r. if matches wh r then r\<lparr>status := st\<rparr> else r) (store w)\<rparr>)
      else (Inl StoreError, w))"

text \<open>
  The \<^verbatim>\<open>for (const taskId of taskIds)\<close> loop of \<^verbatim>\<open>batchUpdateStatus\<close>: one
  \<^verbatim>\<open>add\<close> for each id of the request. The calls are not awaited, so a failing one
  raises nothing in the request.
\<close>

fun enqueue_each :: "io \<Rightarrow> string list \<Rightarrow> TaskStatus \<Rightarrow> world \<Rightarrow> world" where
  "enqueue_each x [] newStatus w = w"
| "enqueue_each x (taskId # taskIds) newStatus w =
     enqueue_each x taskIds newStatus
       (snd (queue_add x ''task-status-update'' (status_update_data taskId newStatus) retry_opts w))"

definition batchUpdateStatus ::
  "io \<Rightarrow> string list \<Rightarrow> TaskStatus \<Rightarrow> string \<Rightarrow> bool \<Rightarrow> world \<Rightarrow> (error + BatchResult) \<times> world" where
  "batchUpdateStatus x taskIds newStatus loggedInUserId isAdmin w =
     (let w0 = logger Log ''Batch updating status'' w;
          whereCondition = no_where\<lparr>w_ids := Some taskIds,
             w_userId := (if \<not> isAdmin then Some loggedInUserId else None)\<rparr>
      in case repository_update x whereCondition newStatus w0 of
           (Inl err, w1) \<Rightarrow> (Inl err, w1)
         | (Inr affected, w1) \<Rightarrow>
             (let w2 = enqueue_each x taskIds newStatus w1
              in (Inr \<lparr>updated = affected, failed = int (length taskIds) - int affected\<rparr>,
                  logger Log ''Batch status update completed.'' w2)))"

section \<open>The worker (TaskProcessorService)\<close>

text \<open>
  \<^verbatim>\<open>updateStatus(id, status)\<close>, called by the worker with the payload's
  \<^verbatim>\<open>taskId\<close>. There is no ownership check in it. The messages of the errors keep
  their fixed text. Two things are left out: an id of the payload that is no string
  matches no row here (a database may compare its text instead; the producers of this
  repository put string ids only), and the read and the write of the row always answer.
\<close>

definition updateStatus :: "jsvalue \<Rightarrow> TaskStatus \<Rightarrow> world \<Rightarrow> (error + Task) \<times> world" where
  "updateStatus tid st w =
     (let w1 = logger Log ''Updating status for task (from worker)'' w
      in case find (\<lambda>r. JStr (task_id r) = tid) (store w1) of
           None \<Rightarrow>
             (Inl (NotFoundException ''Task not found''),
              logger Error ''Task not found during status update from worker.'' w1)
         | Some task \<Rightarrow>
             (let updatedTask = task\<lparr>status := st\<rparr>;
                  w2 = w1\<lparr>store := map (\<lambda>r. if task_id r = task_id updatedTask then updatedTask else r)
                                     (store w1)\<rparr>
              in (Inr (TaskResponseDto updatedTask),
                  logger Log ''Task status updated (from worker)'' w2)))"

record Job =
  job_id :: string
  job_name :: string
  job_data :: jsobject
  job_opts :: JobsOptions
  attemptsMade :: nat
  stacktrace :: "error list"

text \<open>\<^verbatim>\<open>Object.values(TaskStatus).includes(status)\<close>, with the member found.\<close>

definition status_of_js :: "jsvalue \<Rightarrow> TaskStatus option" where
  "status_of_js v =
     (case v of JStr s \<Rightarrow> find (\<lambda>st. status_string st = s) TaskStatus_values | _ \<Rightarrow> None)"

definition handleStatusUpdate :: "Job \<Rightarrow> world \<Rightarrow> (error + JobResult) \<times> world" where
  "handleStatusUpdate job w =
     (let taskId = jsget (job_data job) ''taskId'';
          st = jsget (job_data job) ''status'';
          w0 = logger Log ''Handling status update for task'' w
      in if falsy taskId \<or> falsy st then
           (Inl (UnrecoverableError ''Missing required task ID or status for update.''),
            logger Error ''Missing required data for task status update.'' w0)
         else
           (case status_of_js st of
              None \<Rightarrow>
                (Inl (UnrecoverableError ''Invalid task status value''),
                 logger Error ''Invalid task status value'' w0)
            | Some newStatus \<Rightarrow>
                (case updateStatus taskId newStatus w0 of
                   (Inr updatedTask, w1) \<Rightarrow>
                     (Inr (StatusUpdated (task_id updatedTask) (status updatedTask)),
                      logger Log ''Task status successfully updated'' w1)
                 | (Inl err, w1) \<Rightarrow>
                     (Inl err, logger Error ''Failed to update status for task'' w1))))"

fun is_unrecoverable :: "error \<Rightarrow> bool" where
  "is_unrecoverable (UnrecoverableError m) = True"
| "is_unrecoverable err = False"

text \<open>
  \<^verbatim>\<open>process(job)\<close>: the dispatch on the job's name, and the catch that logs the error
  at error level and throws it again, whatever its class.
\<close>

definition process :: "env \<Rightarrow> Job \<Rightarrow> world \<Rightarrow> (error + JobResult) \<times> world" where
  "process e job w =
     (let w0 = logger Debug ''Processing job'' w
      in case (if job_name job = ''task-status-update'' then handleStatusUpdate job w0
               else if job_name job = ''overdue-tasks-notification'' then handleOverdueTasks e w0
               else (Inl (UnrecoverableError (''Unknown job type: '' @ job_name job)),
                     logger Warn ''Unknown job type received'' w0)) of
           (Inr r, w1) \<Rightarrow> (Inr r, w1)
         | (Inl err, w1) \<Rightarrow>
             if is_unrecoverable err
             then (Inl err, logger Error ''Unrecoverable error processing job'' w1)
             else (Inl err, logger Error ''Error processing job'' w1))"

datatype JobState = Completed JobResult | Failed error

text \<open>
  Modelled from the spec: the queue's worker is the BullMQ library, which is not among
  the sources. As the specification describes it (sections 4.1 and 4.4), the worker
  runs the handler; on success the job is acknowledged; an Unrecoverable error fails
  the job with no retry; any other error is retried while \<open>attemptsMade\<close> is below the
  job's \<open>attempts\<close>, and fails the job for good once the attempts are used up. Every
  attempt counts in \<open>attemptsMade\<close>. The listeners \<^verbatim>\<open>onActive\<close>, \<^verbatim>\<open>onCompleted\<close>
  and \<^verbatim>\<open>onFailed\<close> of the processor log each transition.
\<close>

function run_job :: "env \<Rightarrow> Job \<Rightarrow> world \<Rightarrow> (Job \<times> JobState) \<times> world" where
  "run_job e job w =
     (case process e job (logger Debug ''Job started processing.'' w) of
        (Inr r, w1) \<Rightarrow>
          ((job\<lparr>attemptsMade := attemptsMade job + 1\<rparr>, Completed r),
           logger Debug ''Job completed.'' w1)
      | (Inl err, w1) \<Rightarrow>
          (let job1 = job\<lparr>attemptsMade := attemptsMade job + 1,
                          stacktrace := stacktrace job @ [err]\<rparr>;
               w2 = logger Error ''Job failed with error'' w1
           in if is_unrecoverable err \<or> \<not> attemptsMade job1 < attempts (job_opts job1)
              then ((job1, Failed err), w2)
              else run_job e job1 w2))"
  by pat_completeness auto
termination
  by (relation "measure (\<lambda>(e, job, w). attempts (job_opts job) - attemptsMade job)") auto

declare run_job.simps [simp del]

text \<open>The job a worker takes from the queue: no attempt made yet.\<close>

definition new_job :: "string \<Rightarrow> QueuedJob \<Rightarrow> Job" where
  "new_job jid q =
     \<lparr>job_id = jid, job_name = q_name q, job_data = q_data q, job_opts = q_opts q,
      attemptsMade = 0, stacktrace = []\<rparr>"

section \<open>Notions the properties are stated with\<close>

text \<open>
  The rows, with their user relation, that the query of the sweep matches at time
  \<open>t\<close>, in the order of the query: the pending tasks whose due date lies between
  1900-01-01 and \<open>t\<close>, both included.
\<close>

definition overdue_rows :: "int \<Rightarrow> world \<Rightarrow> Task list" where
  "overdue_rows t w =
     map (load_user (users w)) (find_rows (findAll_where (overdue_query t 0) None False) (store w))"

text \<open>The condition \<^verbatim>\<open>task.user && task.user.email\<close> of the sweep.\<close>

definition notifiable :: "Task \<Rightarrow> bool" where
  "notifiable t = (case user t of None \<Rightarrow> False | Some u \<Rightarrow> email u \<noteq> [])"

text \<open>The rows that a list of page reads returned, in order.\<close>

definition fetched :: "PageRead list \<Rightarrow> Task list" where
  "fetched rs = concat (map (\<lambda>r. case rd_result r of None \<Rightarrow> [] | Some ts \<Rightarrow> ts) rs)"

text \<open>
  The steps of one iteration of the sweep's loop: the page that the read at \<open>offset\<close>
  returns, the world after a failed read, after a successful read, and after the page
  has been notified and logged.
\<close>

definition sweep_page :: "env \<Rightarrow> nat \<Rightarrow> world \<Rightarrow> Task list" where
  "sweep_page e offset w =
     take batchSize (drop (offset div batchSize * batchSize)
       (overdue_rows (clock e (length (reads w))) w))"

definition read_failed :: "nat \<Rightarrow> world \<Rightarrow> world" where
  "read_failed offset w =
     (logger Log ''Fetching tasks with query'' w)\<lparr>reads := reads w @
        [\<lparr>rd_skip = offset div batchSize * batchSize, rd_take = batchSize, rd_result = None\<rparr>]\<rparr>"

definition after_read :: "env \<Rightarrow> nat \<Rightarrow> world \<Rightarrow> world" where
  "after_read e offset w =
     logger Log ''Found tasks''
       ((logger Log ''Fetching tasks with query'' w)\<lparr>reads := reads w @
          [\<lparr>rd_skip = offset div batchSize * batchSize, rd_take = batchSize,
            rd_result = Some (sweep_page e offset w)\<rparr>]\<rparr>)"

definition after_page :: "env \<Rightarrow> nat \<Rightarrow> world \<Rightarrow> world" where
  "after_page e offset w =
     logger Log ''Processed batch of overdue tasks.''
       (fold (notifyTask e) (sweep_page e offset w) (after_read e offset w))"

text \<open>The ids of the tasks for which \<^verbatim>\<open>sendMail\<close> was called between two worlds.\<close>

definition mailed_ids :: "world \<Rightarrow> world \<Rightarrow> string list" where
  "mailed_ids w w' = map mail_task (drop (length (outbox w)) (outbox w'))"

text \<open>
  The overdue predicate in the specification's words: the task is pending and its due
  date is before \<open>t\<close>.
\<close>

definition strictly_overdue :: "int \<Rightarrow> Task \<Rightarrow> bool" where
  "strictly_overdue t r =
     (status r = PENDING \<and> (case dueDate r of None \<Rightarrow> False | Some d \<Rightarrow> d < t))"

text \<open>The job that the producers put on the queue for a task and its status.\<close>

definition status_job :: "string \<Rightarrow> TaskStatus \<Rightarrow> QueuedJob" where
  "status_job tid st =
     \<lparr>q_name = ''task-status-update'', q_data = status_update_data tid st, q_opts = retry_opts\<rparr>"

section \<open>Example worlds\<close>

text \<open>
  Two users, one of them without an email; tasks that are pending and were due at time
  500, the i-th created i milliseconds before time 0; tasks due one millisecond before
  1900-01-01; and tasks due at time 1000.
\<close>

definition alice :: User where
  "alice = \<lparr>user_id = ''u1'', email = ''alice@example.com'', user_name = ''Alice''\<rparr>"

definition bob :: User where
  "bob = \<lparr>user_id = ''u2'', email = [], user_name = ''Bob''\<rparr>"

definition overdue_task :: "nat \<Rightarrow> string \<Rightarrow> Task" where
  "overdue_task i uid =
     \<lparr>task_id = replicate (Suc i) CHR ''t'', title = ''report'', description = None,
      status = PENDING, priority = MEDIUM, dueDate = Some 500, userId = uid,
      createdAt = - int i, user = None\<rparr>"

definition old_task :: "nat \<Rightarrow> Task" where
  "old_task i = (overdue_task i ''u1'')\<lparr>dueDate := Some (date_1900 - 1)\<rparr>"


text \<open>
  Environments with the clock at time 1000 and a store that answers: one where every
  mail is sent, one where the fourth call of \<^verbatim>\<open>sendMail\<close> fails, one where every
  call fails.
\<close>

definition steady_env :: env where
  "steady_env = \<lparr>clock = (\<lambda>k. 1000), db_ok = (\<lambda>k. True), mail_ok = (\<lambda>k. True)\<rparr>"

definition flaky_env :: env where
  "flaky_env = \<lparr>clock = (\<lambda>k. 1000), db_ok = (\<lambda>k. True), mail_ok = (\<lambda>k. k \<noteq> 3)\<rparr>"

definition down_env :: env where
  "down_env = \<lparr>clock = (\<lambda>k. 1000), db_ok = (\<lambda>k. True), mail_ok = (\<lambda>k. False)\<rparr>"

definition ten_world :: world where
  "ten_world = \<lparr>store = map (\<lambda>i. overdue_task i ''u1'') [0..<10], users = [alice],
     queue = [], outbox = [], reads = [], logs = []\<rparr>"

definition big_world :: world where
  "big_world = \<lparr>store = map (\<lambda>i. overdue_task i ''u1'') [0..<250], users = [alice],
     queue = [], outbox = [], reads = [], logs = []\<rparr>"

definition old_world :: world where
  "old_world = \<lparr>store = map old_task [0..<250], users = [alice],
     queue = [], outbox = [], reads = [], logs = []\<rparr>"


definition mixed_world :: world where
  "mixed_world = \<lparr>store = [overdue_task 0 ''u1'', overdue_task 1 ''u2'', overdue_task 2 ''u9''],
     users = [alice, bob], queue = [], outbox = [], reads = [], logs = []\<rparr>"

text \<open>
  Requests, tasks and jobs for the producers and the worker: an environment where every
  external call succeeds, a request to create a task with no status given, tasks of two
  owners, an update of the status, a job whose status is no member of the enum, a job
  with no status, and a job for a task that does not exist.
\<close>

definition good_io :: io where
  "good_io = \<lparr>find_ok = True, save_ok = True, add_ok = True, commit_ok = True,
     new_id = ''t-new'', now = 2000, default_status = PENDING, default_priority = MEDIUM\<rparr>"

definition report_dto :: CreateTaskDto where
  "report_dto = \<lparr>c_title = ''report'', c_description = None, c_status = None,
     c_priority = None, c_dueDate = Some 3000\<rparr>"

definition empty_world :: world where
  "empty_world = \<lparr>store = [], users = [alice], queue = [], outbox = [], reads = [], logs = []\<rparr>"

definition task_of :: "string \<Rightarrow> string \<Rightarrow> Task" where
  "task_of tid uid =
     \<lparr>task_id = tid, title = ''report'', description = None, status = PENDING,
      priority = MEDIUM, dueDate = Some 3000, userId = uid, createdAt = 0, user = None\<rparr>"

definition one_task_world :: world where
  "one_task_world = empty_world\<lparr>store := [task_of ''t1'' ''u1'']\<rparr>"

definition two_owner_world :: world where
  "two_owner_world = empty_world\<lparr>store := [task_of ''t1'' ''u1'', task_of ''t2'' ''u2'']\<rparr>"

definition complete_dto :: UpdateTaskDto where
  "complete_dto = \<lparr>u_title = None, u_description = None, u_status = Some COMPLETED,
     u_priority = None, u_dueDate = None\<rparr>"

definition archived_job :: Job where
  "archived_job = new_job ''j1''
     \<lparr>q_name = ''task-status-update'',
      q_data = [(''taskId'', JStr ''t1''), (''status'', JStr ''archived'')],
      q_opts = retry_opts\<rparr>"

definition statusless_job :: Job where
  "statusless_job = new_job ''j0''
     \<lparr>q_name = ''task-status-update'', q_data = [(''taskId'', JStr ''t1'')], q_opts = retry_opts\<rparr>"

definition ghost_job :: Job where
  "ghost_job = new_job ''j2'' (status_job ''t9'' COMPLETED)"

section \<open>The overdue sweep: lemmas\<close>

lemma store_logger [simp]: "store (logger lvl msg w) = store w"
  and users_logger [simp]: "users (logger lvl msg w) = users w"
  and queue_logger [simp]: "queue (logger lvl msg w) = queue w"
  and outbox_logger [simp]: "outbox (logger lvl msg w) = outbox w"
  and reads_logger [simp]: "reads (logger lvl msg w) = reads w"
  and logs_logger [simp]: "logs (logger lvl msg w) = logs w @ [(lvl, msg)]"
  by (simp_all add: logger_def)

lemma findAll_where_overdue:
  "findAll_where (overdue_query t off) None False =
     no_where\<lparr>w_status := Some PENDING, w_dueDate := Some (date_1900, t)\<rparr>"
  by (simp add: findAll_where_def overdue_query_def no_where_def truthy_string_def)

lemma findAll_overdue:
  "findAll e (overdue_query t off) None False w =
     (if \<not> db_ok e (length (reads w)) then
        (Inl StoreError,
         (logger Log ''Fetching tasks with query'' w)\<lparr>reads := reads w @
            [\<lparr>rd_skip = off div batchSize * batchSize, rd_take = batchSize, rd_result = None\<rparr>]\<rparr>)
      else
        (Inr \<lparr>data = take batchSize (drop (off div batchSize * batchSize) (overdue_rows t w)),
              total = length (overdue_rows t w), page = off div batchSize + 1,
              totalPages = (length (overdue_rows t w) + batchSize - 1) div batchSize,
              limit = batchSize\<rparr>,
         logger Log ''Found tasks''
           ((logger Log ''Fetching tasks with query'' w)\<lparr>reads := reads w @
              [\<lparr>rd_skip = off div batchSize * batchSize, rd_take = batchSize,
                rd_result = Some (take batchSize (drop (off div batchSize * batchSize) (overdue_rows t w)))\<rparr>]\<rparr>)))"
proof -
  have pg: "f_page (overdue_query t off) = Some (off div batchSize + 1)"
    and lm: "f_limit (overdue_query t off) = Some batchSize"
    by (simp_all add: overdue_query_def)
  show ?thesis
    by (simp add: findAll_def Let_def findAndCount_def overdue_rows_def findAll_where_overdue
        take_map drop_map number_or_def pg lm TaskResponseDto_def batchSize_def)
qed

lemma notifyTask_frame [simp]:
  "store (notifyTask e t w) = store w"
  "users (notifyTask e t w) = users w"
  "queue (notifyTask e t w) = queue w"
  "reads (notifyTask e t w) = reads w"
  by (simp_all add: notifyTask_def Let_def split: option.splits)

lemma notifyTask_outbox:
  "outbox (notifyTask e t w) =
     (if notifiable t
      then outbox w @ [\<lparr>mail_task = task_id t, mail_to = email (the (user t)),
             mail_subject = ''Action Required: Your Task \"'' @ title t @ ''\" is Overdue!'',
             mail_sent = mail_ok e (length (outbox w))\<rparr>]
      else outbox w)"
  by (simp add: notifyTask_def notifiable_def Let_def split: option.splits)

lemma fold_notifyTask_frame [simp]:
  "store (fold (notifyTask e) ts w) = store w"
  "users (fold (notifyTask e) ts w) = users w"
  "queue (fold (notifyTask e) ts w) = queue w"
  "reads (fold (notifyTask e) ts w) = reads w"
  by (induction ts arbitrary: w) simp_all

lemma fold_notifyTask_outbox:
  "\<exists>ms. outbox (fold (notifyTask e) ts w) = outbox w @ ms
      \<and> map mail_task ms = map task_id (filter notifiable ts)
      \<and> map mail_sent ms = map (mail_ok e) [length (outbox w) ..< length (outbox w) + length ms]"
proof (induction ts arbitrary: w)
  case Nil
  show ?case by simp
next
  case (Cons t ts)
  obtain ms where ms: "outbox (fold (notifyTask e) ts (notifyTask e t w)) = outbox (notifyTask e t w) @ ms"
    "map mail_task ms = map task_id (filter notifiable ts)"
    "map mail_sent ms = map (mail_ok e)
       [length (outbox (notifyTask e t w)) ..< length (outbox (notifyTask e t w)) + length ms]"
    using Cons.IH by blast
  show ?case
  proof (cases "notifiable t")
    case True
    let ?m = "\<lparr>mail_task = task_id t, mail_to = email (the (user t)),
               mail_subject = ''Action Required: Your Task \"'' @ title t @ ''\" is Overdue!'',
               mail_sent = mail_ok e (length (outbox w))\<rparr>"
    have "[length (outbox w) ..< length (outbox w) + length (?m # ms)]
          = length (outbox w) # [Suc (length (outbox w)) ..< Suc (length (outbox w)) + length ms]"
      using upt_conv_Cons [of "length (outbox w)" "Suc (length (outbox w)) + length ms"] by simp
    then show ?thesis
      using ms True by (intro exI [of _ "?m # ms"]) (simp add: notifyTask_outbox)
  next
    case False
    then show ?thesis using ms by (intro exI [of _ ms]) (simp add: notifyTask_outbox)
  qed
qed

lemma overdue_loop_cases:
  "overdue_loop e offset n w =
     (if \<not> db_ok e (length (reads w)) then (Inl StoreError, read_failed offset w)
      else if sweep_page e offset w = [] then (Inr n, after_read e offset w)
      else if length (sweep_page e offset w) < batchSize
        then (Inr (n + length (sweep_page e offset w)), after_page e offset w)
      else overdue_loop e (offset + batchSize) (n + length (sweep_page e offset w))
             (after_page e offset w))"
  by (subst overdue_loop.simps)
    (simp add: findAll_overdue Let_def sweep_page_def read_failed_def after_read_def
      after_page_def)

lemma length_sweep_page: "length (sweep_page e offset w) \<le> batchSize"
  by (simp add: sweep_page_def)

text \<open>
  Induction along the loop: a property holds of every call when it holds of a call
  given that it holds of the call made after a full page.
\<close>

lemma overdue_loop_induct2 [case_names step]:
  assumes step: "\<And>e offset n w.
      (db_ok e (length (reads w)) \<Longrightarrow> length (sweep_page e offset w) = batchSize \<Longrightarrow>
         P e (offset + batchSize) (n + batchSize) (after_page e offset w))
      \<Longrightarrow> P e offset n w"
  shows "P e offset n w"
proof (induction e offset n w rule: overdue_loop.induct)
  case (1 e offset n w)
  show ?case
  proof (rule step)
    assume ok: "db_ok e (length (reads w))"
      and full: "length (sweep_page e offset w) = batchSize"
    define R where "R = \<lparr>data = sweep_page e offset w,
                  total = length (overdue_rows (clock e (length (reads w))) w),
                  page = offset div batchSize + 1,
                  totalPages = (length (overdue_rows (clock e (length (reads w))) w) + batchSize - 1)
                    div batchSize,
                  limit = batchSize\<rparr>"
    have dataR: "data R = sweep_page e offset w"
      by (simp add: R_def)
    have "P e (offset + batchSize) (n + length (data R)) (after_page e offset w)"
    proof (rule "1.IH" [of "Inr R" "after_read e offset w" R
          "fold (notifyTask e) (data R) (after_read e offset w)"])
      show "(Inr R, after_read e offset w) =
            findAll e (overdue_query (clock e (length (reads w))) offset) None False w"
        using ok by (simp add: findAll_overdue sweep_page_def after_read_def R_def)
      show "Inr R = Inr R"
        by (rule refl)
      show "length (data R) \<noteq> 0"
        using full by (simp add: dataR batchSize_def)
      show "fold (notifyTask e) (data R) (after_read e offset w) =
            fold (notifyTask e) (data R) (after_read e offset w)"
        by (rule refl)
      show "after_page e offset w =
            logger Log ''Processed batch of overdue tasks.''
              (fold (notifyTask e) (data R) (after_read e offset w))"
        by (simp add: after_page_def dataR)
      show "\<not> length (data R) < batchSize"
        using full by (simp add: dataR)
    qed
    then have "P e (offset + batchSize) (n + length (sweep_page e offset w)) (after_page e offset w)"
      by (simp add: dataR)
    with full show "P e (offset + batchSize) (n + batchSize) (after_page e offset w)"
      by simp
  qed
qed

lemma after_page_frame [simp]:
  "store (after_page e offset w) = store w"
  "users (after_page e offset w) = users w"
  "queue (after_page e offset w) = queue w"
  "reads (after_page e offset w) = reads w @
     [\<lparr>rd_skip = offset div batchSize * batchSize, rd_take = batchSize,
       rd_result = Some (sweep_page e offset w)\<rparr>]"
  by (simp_all add: after_page_def after_read_def)

lemma after_read_frame [simp]:
  "store (after_read e offset w) = store w"
  "users (after_read e offset w) = users w"
  "queue (after_read e offset w) = queue w"
  "outbox (after_read e offset w) = outbox w"
  "reads (after_read e offset w) = reads w @
     [\<lparr>rd_skip = offset div batchSize * batchSize, rd_take = batchSize,
       rd_result = Some (sweep_page e offset w)\<rparr>]"
  by (simp_all add: after_read_def)

lemma read_failed_frame [simp]:
  "store (read_failed offset w) = store w"
  "users (read_failed offset w) = users w"
  "queue (read_failed offset w) = queue w"
  "outbox (read_failed offset w) = outbox w"
  "reads (read_failed offset w) = reads w @
     [\<lparr>rd_skip = offset div batchSize * batchSize, rd_take = batchSize, rd_result = None\<rparr>]"
  by (simp_all add: read_failed_def)

lemma after_page_outbox:
  "\<exists>ms. outbox (after_page e offset w) = outbox w @ ms
      \<and> map mail_task ms = map task_id (filter notifiable (sweep_page e offset w))
      \<and> map mail_sent ms = map (mail_ok e) [length (outbox w) ..< length (outbox w) + length ms]"
  using fold_notifyTask_outbox [of e "sweep_page e offset w" "after_read e offset w"]
  by (simp add: after_page_def)

lemma fetched_simps [simp]:
  "fetched [] = []"
  "fetched (r # rs) = (case rd_result r of None \<Rightarrow> [] | Some ts \<Rightarrow> ts) @ fetched rs"
  "fetched (rs @ rs') = fetched rs @ fetched rs'"
  by (simp_all add: fetched_def)

lemma overdue_rows_frame:
  "store w' = store w \<Longrightarrow> users w' = users w \<Longrightarrow> overdue_rows t w' = overdue_rows t w"
  by (simp add: overdue_rows_def)

text \<open>The loop writes neither the task table, nor the user table, nor the queue.\<close>

lemma overdue_loop_frame:
  "store (snd (overdue_loop e offset n w)) = store w
   \<and> users (snd (overdue_loop e offset n w)) = users w
   \<and> queue (snd (overdue_loop e offset n w)) = queue w"
proof (induction e offset n w rule: overdue_loop_induct2)
  case (step e offset n w)
  show ?case
    using step length_sweep_page [of e offset w]
    by (subst (1 2 3) overdue_loop_cases) (auto simp: batchSize_def)
qed

text \<open>
  What the loop reads and mails: every task of every page read that has a user with an
  email gets one call of \<^verbatim>\<open>sendMail\<close>, whatever the calls before it returned, and
  the count returned is the number of rows read.
\<close>

lemma overdue_loop_trace:
  "\<exists>rs ms. reads (snd (overdue_loop e offset n w)) = reads w @ rs \<and> rs \<noteq> []
     \<and> outbox (snd (overdue_loop e offset n w)) = outbox w @ ms
     \<and> map mail_task ms = map task_id (filter notifiable (fetched rs))
     \<and> map mail_sent ms = map (mail_ok e) [length (outbox w) ..< length (outbox w) + length ms]
     \<and> (case fst (overdue_loop e offset n w) of
          Inr m \<Rightarrow> m = n + length (fetched rs)
        | Inl err \<Rightarrow> err = StoreError)"
proof (induction e offset n w rule: overdue_loop_induct2)
  case (step e offset n w)
  let ?pg = "sweep_page e offset w"
  let ?r = "\<lparr>rd_skip = offset div batchSize * batchSize, rd_take = batchSize, rd_result = Some ?pg\<rparr>"
  obtain ms0 where ms0: "outbox (after_page e offset w) = outbox w @ ms0"
    "map mail_task ms0 = map task_id (filter notifiable ?pg)"
    "map mail_sent ms0 = map (mail_ok e) [length (outbox w) ..< length (outbox w) + length ms0]"
    using after_page_outbox by blast
  consider (fail) "\<not> db_ok e (length (reads w))"
    | (empty) "db_ok e (length (reads w))" "?pg = []"
    | (short) "db_ok e (length (reads w))" "?pg \<noteq> []" "length ?pg < batchSize"
    | (full) "db_ok e (length (reads w))" "length ?pg = batchSize"
    using length_sweep_page [of e offset w] by fastforce
  then show ?case
  proof cases
    case fail
    then have eq: "overdue_loop e offset n w = (Inl StoreError, read_failed offset w)"
      by (subst overdue_loop_cases) simp
    show ?thesis
      by (rule exI [of _ "[\<lparr>rd_skip = offset div batchSize * batchSize, rd_take = batchSize, rd_result = None\<rparr>]"],
          rule exI [of _ "[]"]) (simp add: eq)
  next
    case empty
    then have eq: "overdue_loop e offset n w = (Inr n, after_read e offset w)"
      by (subst overdue_loop_cases) simp
    show ?thesis
      by (rule exI [of _ "[?r]"], rule exI [of _ "[]"]) (simp add: eq empty)
  next
    case short
    then have eq: "overdue_loop e offset n w = (Inr (n + length ?pg), after_page e offset w)"
      by (subst overdue_loop_cases) simp
    show ?thesis
      by (rule exI [of _ "[?r]"], rule exI [of _ ms0]) (simp add: eq ms0)
  next
    case full
    then have eq: "overdue_loop e offset n w =
        overdue_loop e (offset + batchSize) (n + batchSize) (after_page e offset w)"
      by (subst overdue_loop_cases) (auto simp: batchSize_def)
    from step [OF full] obtain rs ms where
      rs: "reads (snd (overdue_loop e (offset + batchSize) (n + batchSize) (after_page e offset w)))
             = reads (after_page e offset w) @ rs"
      and ms: "outbox (snd (overdue_loop e (offset + batchSize) (n + batchSize) (after_page e offset w)))
             = outbox (after_page e offset w) @ ms"
        "map mail_task ms = map task_id (filter notifiable (fetched rs))"
        "map mail_sent ms = map (mail_ok e)
           [length (outbox (after_page e offset w)) ..< length (outbox (after_page e offset w)) + length ms]"
      and res: "(case fst (overdue_loop e (offset + batchSize) (n + batchSize) (after_page e offset w)) of
          Inr m \<Rightarrow> m = n + batchSize + length (fetched rs)
        | Inl err \<Rightarrow> err = StoreError)"
      by blast
    have "[length (outbox w) ..< length (outbox w) + length (ms0 @ ms)]
          = [length (outbox w) ..< length (outbox w) + length ms0]
            @ [length (outbox w) + length ms0 ..< length (outbox w) + length ms0 + length ms]"
      using upt_add_eq_append [of "length (outbox w)" "length (outbox w) + length ms0" "length ms"]
      by (simp add: add.assoc)
    then have sent: "map mail_sent (ms0 @ ms)
        = map (mail_ok e) [length (outbox w) ..< length (outbox w) + length (ms0 @ ms)]"
      using ms(3) ms0(1,3) by simp
    show ?thesis
      apply (rule exI [of _ "?r # rs"], rule exI [of _ "ms0 @ ms"])
      using rs ms(1,2) res ms0(1,2) full sent
      by (simp add: eq split: sum.splits)
  qed
qed

lemma overdue_loop_succeeds:
  "(\<forall>k. db_ok e k) \<longrightarrow> (\<exists>m. fst (overdue_loop e offset n w) = Inr m)"
proof (induction e offset n w rule: overdue_loop_induct2)
  case (step e offset n w)
  show ?case
    using step length_sweep_page [of e offset w]
    by (subst overdue_loop_cases) (auto simp: batchSize_def)
qed

text \<open>Every page but the last is full, and the last one is not.\<close>

lemma overdue_loop_pages:
  "\<exists>rs. reads (snd (overdue_loop e offset n w)) = reads w @ rs \<and> rs \<noteq> []
     \<and> map (\<lambda>r. map_option length (rd_result r)) (butlast rs) = replicate (length rs - 1) (Some batchSize)
     \<and> (case rd_result (last rs) of None \<Rightarrow> True | Some pg \<Rightarrow> length pg < batchSize)"
proof (induction e offset n w rule: overdue_loop_induct2)
  case (step e offset n w)
  let ?r = "\<lparr>rd_skip = offset div batchSize * batchSize, rd_take = batchSize,
             rd_result = Some (sweep_page e offset w)\<rparr>"
  consider (fail) "\<not> db_ok e (length (reads w))"
    | (empty) "db_ok e (length (reads w))" "sweep_page e offset w = []"
    | (short) "db_ok e (length (reads w))" "sweep_page e offset w \<noteq> []"
        "length (sweep_page e offset w) < batchSize"
    | (full) "db_ok e (length (reads w))" "length (sweep_page e offset w) = batchSize"
    using length_sweep_page [of e offset w] by fastforce
  then show ?case
  proof cases
    case fail
    then show ?thesis by (subst overdue_loop_cases) simp
  next
    case empty
    then show ?thesis by (subst overdue_loop_cases) (simp add: batchSize_def)
  next
    case short
    then show ?thesis by (subst overdue_loop_cases) simp
  next
    case full
    have eq: "overdue_loop e offset n w =
        overdue_loop e (offset + batchSize) (n + batchSize) (after_page e offset w)"
      using full by (subst overdue_loop_cases) (auto simp: batchSize_def)
    from step [OF full] obtain rs where
      rs: "reads (snd (overdue_loop e (offset + batchSize) (n + batchSize) (after_page e offset w)))
             = reads (after_page e offset w) @ rs" "rs \<noteq> []"
        "map (\<lambda>r. map_option length (rd_result r)) (butlast rs) = replicate (length rs - 1) (Some batchSize)"
        "(case rd_result (last rs) of None \<Rightarrow> True | Some pg \<Rightarrow> length pg < batchSize)"
      by blast
    from rs(2) have "replicate (length rs) (Some batchSize)
        = Some batchSize # replicate (length rs - 1) (Some batchSize)"
      by (cases rs) simp_all
    then show ?thesis
      using rs full by (intro exI [of _ "?r # rs"]) (simp add: eq)
  qed
qed

lemma next_skip: "(offset + batchSize) div batchSize * batchSize = offset div batchSize * batchSize + batchSize"
proof -
  have "(offset + batchSize) div batchSize = offset div batchSize + 1"
    by (simp add: batchSize_def)
  then show ?thesis by simp
qed

lemma overdue_loop_bound:
  "(\<forall>k. length (overdue_rows (clock e k) w) \<le> N) \<longrightarrow>
     length (reads (snd (overdue_loop e offset n w)))
       \<le> length (reads w) + (N - offset div batchSize * batchSize) div batchSize + 1"
proof (induction e offset n w rule: overdue_loop_induct2)
  case (step e offset n w)
  let ?s = "offset div batchSize * batchSize"
  show ?case
  proof (intro impI)
    assume bound: "\<forall>k. length (overdue_rows (clock e k) w) \<le> N"
    consider (fail) "\<not> db_ok e (length (reads w))"
      | (empty) "db_ok e (length (reads w))" "sweep_page e offset w = []"
      | (short) "db_ok e (length (reads w))" "sweep_page e offset w \<noteq> []"
          "length (sweep_page e offset w) < batchSize"
      | (full) "db_ok e (length (reads w))" "length (sweep_page e offset w) = batchSize"
      using length_sweep_page [of e offset w] by fastforce
    then show "length (reads (snd (overdue_loop e offset n w)))
       \<le> length (reads w) + (N - ?s) div batchSize + 1"
    proof cases
      case fail
      then show ?thesis by (subst overdue_loop_cases) simp
    next
      case empty
      then show ?thesis by (subst overdue_loop_cases) simp
    next
      case short
      then show ?thesis by (subst overdue_loop_cases) simp
    next
      case full
      have eq: "overdue_loop e offset n w =
          overdue_loop e (offset + batchSize) (n + batchSize) (after_page e offset w)"
        using full by (subst overdue_loop_cases) (auto simp: batchSize_def)
      have "?s + batchSize \<le> length (overdue_rows (clock e (length (reads w))) w)"
        using full(2) by (simp add: sweep_page_def batchSize_def)
      with bound have room: "?s + batchSize \<le> N"
        using le_trans by blast
      have "\<forall>k. length (overdue_rows (clock e k) (after_page e offset w)) \<le> N"
        using bound by (simp add: overdue_rows_frame [of "after_page e offset w" w])
      with step [OF full] have
        "length (reads (snd (overdue_loop e (offset + batchSize) (n + batchSize) (after_page e offset w))))
           \<le> length (reads (after_page e offset w))
              + (N - (offset + batchSize) div batchSize * batchSize) div batchSize + 1"
        by blast
      moreover have "(N - (?s + batchSize)) div batchSize + 1 = (N - ?s) div batchSize"
        using room le_div_geq [of batchSize "N - ?s"] by (simp add: batchSize_def)
      ultimately show ?thesis
        by (simp add: eq next_skip)
    qed
  qed
qed

text \<open>
  When the query matches the same rows \<open>R\<close> at every read, the pages read from an
  offset are the rest of \<open>R\<close>.
\<close>

lemma overdue_loop_stable:
  "(\<forall>k. db_ok e k) \<longrightarrow> (\<forall>k. overdue_rows (clock e k) w = R) \<longrightarrow>
   offset div batchSize * batchSize \<le> length R \<longrightarrow>
     (\<exists>rs. reads (snd (overdue_loop e offset n w)) = reads w @ rs
        \<and> fetched rs = drop (offset div batchSize * batchSize) R)"
proof (induction e offset n w rule: overdue_loop_induct2)
  case (step e offset n w)
  let ?s = "offset div batchSize * batchSize"
  let ?r = "\<lparr>rd_skip = ?s, rd_take = batchSize, rd_result = Some (sweep_page e offset w)\<rparr>"
  show ?case
  proof (intro impI)
    assume ok: "\<forall>k. db_ok e k" and st: "\<forall>k. overdue_rows (clock e k) w = R"
      and le: "?s \<le> length R"
    have pg: "sweep_page e offset w = take batchSize (drop ?s R)"
      using st by (simp add: sweep_page_def)
    consider (empty) "sweep_page e offset w = []"
      | (short) "sweep_page e offset w \<noteq> []" "length (sweep_page e offset w) < batchSize"
      | (full) "length (sweep_page e offset w) = batchSize"
      using length_sweep_page [of e offset w] by fastforce
    then show "\<exists>rs. reads (snd (overdue_loop e offset n w)) = reads w @ rs
        \<and> fetched rs = drop ?s R"
    proof cases
      case empty
      then have "drop ?s R = []"
        using pg by (simp add: batchSize_def)
      then show ?thesis
        using ok empty by (subst overdue_loop_cases) simp
    next
      case short
      then have "drop ?s R = sweep_page e offset w"
        using pg by simp
      then show ?thesis
        using ok short by (subst overdue_loop_cases) simp
    next
      case full
      have eq: "overdue_loop e offset n w =
          overdue_loop e (offset + batchSize) (n + batchSize) (after_page e offset w)"
        using full ok by (subst overdue_loop_cases) (auto simp: batchSize_def)
      have room: "?s + batchSize \<le> length R"
        using full pg by (simp add: batchSize_def)
      have "\<forall>k. overdue_rows (clock e k) (after_page e offset w) = R"
        using st by (simp add: overdue_rows_frame [of "after_page e offset w" w])
      with step [OF _ full] ok room obtain rs where
        rs: "reads (snd (overdue_loop e (offset + batchSize) (n + batchSize) (after_page e offset w)))
              = reads (after_page e offset w) @ rs"
          "fetched rs = drop (?s + batchSize) R"
        by (auto simp: next_skip)
      have "drop ?s R = take batchSize (drop ?s R) @ drop (?s + batchSize) R"
        using append_take_drop_id [of batchSize "drop ?s R"] by (simp add: add.commute)
      then have "fetched (?r # rs) = drop ?s R"
        using rs(2) pg by simp
      then show ?thesis
        using rs(1) by (intro exI [of _ "?r # rs"]) (simp add: eq)
    qed
  qed
qed

lemma handle_fst:
  "fst (handleOverdueTasks e w) =
     (case fst (overdue_loop e 0 0 (logger Debug ''Processing overdue tasks notification.'' w)) of
        Inr m \<Rightarrow> Inr (OverdueCompleted m) | Inl err \<Rightarrow> Inl err)"
  by (simp add: handleOverdueTasks_def split: prod.splits sum.splits)

lemma handle_snd:
  "store (snd (handleOverdueTasks e w)) =
     store (snd (overdue_loop e 0 0 (logger Debug ''Processing overdue tasks notification.'' w)))"
  "users (snd (handleOverdueTasks e w)) =
     users (snd (overdue_loop e 0 0 (logger Debug ''Processing overdue tasks notification.'' w)))"
  "queue (snd (handleOverdueTasks e w)) =
     queue (snd (overdue_loop e 0 0 (logger Debug ''Processing overdue tasks notification.'' w)))"
  "outbox (snd (handleOverdueTasks e w)) =
     outbox (snd (overdue_loop e 0 0 (logger Debug ''Processing overdue tasks notification.'' w)))"
  "reads (snd (handleOverdueTasks e w)) =
     reads (snd (overdue_loop e 0 0 (logger Debug ''Processing overdue tasks notification.'' w)))"
  by (simp_all add: handleOverdueTasks_def split: prod.splits sum.splits)

lemma handle_frame:
  "store (snd (handleOverdueTasks e w)) = store w"
  "users (snd (handleOverdueTasks e w)) = users w"
  "queue (snd (handleOverdueTasks e w)) = queue w"
  using overdue_loop_frame [of e 0 0 "logger Debug ''Processing overdue tasks notification.'' w"]
  by (simp_all add: handle_snd)

lemma handle_stable:
  assumes ok: "\<forall>k. db_ok e k" and st: "\<forall>k. overdue_rows (clock e k) w = R"
  shows "fst (handleOverdueTasks e w) = Inr (OverdueCompleted (length R))"
    and "\<exists>rs. reads (snd (handleOverdueTasks e w)) = reads w @ rs \<and> fetched rs = R"
    and "\<exists>ms. outbox (snd (handleOverdueTasks e w)) = outbox w @ ms
          \<and> map mail_task ms = map task_id (filter notifiable R)
          \<and> map mail_sent ms = map (mail_ok e) [length (outbox w) ..< length (outbox w) + length ms]"
proof -
  let ?w0 = "logger Debug ''Processing overdue tasks notification.'' w"
  obtain rs ms where t: "reads (snd (overdue_loop e 0 0 ?w0)) = reads ?w0 @ rs"
    "outbox (snd (overdue_loop e 0 0 ?w0)) = outbox ?w0 @ ms"
    "map mail_task ms = map task_id (filter notifiable (fetched rs))"
    "map mail_sent ms = map (mail_ok e) [length (outbox ?w0) ..< length (outbox ?w0) + length ms]"
    "(case fst (overdue_loop e 0 0 ?w0) of Inr k \<Rightarrow> k = 0 + length (fetched rs)
       | Inl err \<Rightarrow> err = StoreError)"
    using overdue_loop_trace [of e 0 0 ?w0] by blast
  obtain m where m: "fst (overdue_loop e 0 0 ?w0) = Inr m"
    using overdue_loop_succeeds [of e 0 0 ?w0] ok by blast
  have "\<forall>k. overdue_rows (clock e k) ?w0 = R"
    using st by (simp add: overdue_rows_frame [of ?w0 w])
  then obtain rs' where rs': "reads (snd (overdue_loop e 0 0 ?w0)) = reads ?w0 @ rs'"
    "fetched rs' = drop (0 div batchSize * batchSize) R"
    using overdue_loop_stable [of e ?w0 R 0 0] ok by auto
  from t(1) rs'(1) have "rs' = rs" by simp
  with rs'(2) have f: "fetched rs = R" by simp
  show "fst (handleOverdueTasks e w) = Inr (OverdueCompleted (length R))"
    using m t(5) f by (simp add: handle_fst)
  show "\<exists>rs. reads (snd (handleOverdueTasks e w)) = reads w @ rs \<and> fetched rs = R"
    using t(1) f by (simp add: handle_snd)
  show "\<exists>ms. outbox (snd (handleOverdueTasks e w)) = outbox w @ ms
          \<and> map mail_task ms = map task_id (filter notifiable R)
          \<and> map mail_sent ms = map (mail_ok e) [length (outbox w) ..< length (outbox w) + length ms]"
    using t(2,3,4) f by (intro exI [of _ ms]) (simp add: handle_snd)
qed

text \<open>
  What the mailer answers has no part in what the sweep reads and returns: two
  environments with the same clock and the same answers of the store give the same
  result.
\<close>

lemma overdue_loop_mail_independent:
  assumes "clock e' = clock e" and "db_ok e' = db_ok e"
  shows "\<forall>w'. store w' = store w \<and> users w' = users w \<and> reads w' = reads w \<longrightarrow>
      fst (overdue_loop e' offset n w') = fst (overdue_loop e offset n w)
    \<and> reads (snd (overdue_loop e' offset n w')) = reads (snd (overdue_loop e offset n w))"
  using assms
proof (induction e offset n w rule: overdue_loop_induct2)
  case (step e offset n w)
  show ?case
  proof (intro allI impI)
    fix w' :: world
    assume ag: "store w' = store w \<and> users w' = users w \<and> reads w' = reads w"
    have ok: "db_ok e' (length (reads w')) = db_ok e (length (reads w))"
      using ag step.prems by simp
    have pg: "sweep_page e' offset w' = sweep_page e offset w"
      using ag step.prems by (simp add: sweep_page_def overdue_rows_frame [of w' w])
    consider (fail) "\<not> db_ok e (length (reads w))"
      | (empty) "db_ok e (length (reads w))" "sweep_page e offset w = []"
      | (short) "db_ok e (length (reads w))" "sweep_page e offset w \<noteq> []"
          "length (sweep_page e offset w) < batchSize"
      | (full) "db_ok e (length (reads w))" "length (sweep_page e offset w) = batchSize"
      using length_sweep_page [of e offset w] by fastforce
    then show "fst (overdue_loop e' offset n w') = fst (overdue_loop e offset n w)
      \<and> reads (snd (overdue_loop e' offset n w')) = reads (snd (overdue_loop e offset n w))"
    proof cases
      case fail
      then show ?thesis
        using ok ag by (subst (1 2) overdue_loop_cases, subst (1 2) overdue_loop_cases) simp
    next
      case empty
      then show ?thesis
        using ok ag pg by (subst (1 2) overdue_loop_cases, subst (1 2) overdue_loop_cases) simp
    next
      case short
      then show ?thesis
        using ok ag pg by (subst (1 2) overdue_loop_cases, subst (1 2) overdue_loop_cases) simp
    next
      case full
      have l: "overdue_loop e offset n w =
          overdue_loop e (offset + batchSize) (n + batchSize) (after_page e offset w)"
        using full by (subst overdue_loop_cases) (auto simp: batchSize_def)
      have r: "overdue_loop e' offset n w' =
          overdue_loop e' (offset + batchSize) (n + batchSize) (after_page e' offset w')"
        using full ok pg by (subst overdue_loop_cases) (auto simp: batchSize_def)
      have "store (after_page e' offset w') = store (after_page e offset w)
          \<and> users (after_page e' offset w') = users (after_page e offset w)
          \<and> reads (after_page e' offset w') = reads (after_page e offset w)"
        using ag pg by simp
      with step.IH [OF full step.prems] show ?thesis
        by (simp add: l r)
    qed
  qed
qed

lemma handle_mail_independent:
  assumes "clock e' = clock e" and "db_ok e' = db_ok e"
  shows "fst (handleOverdueTasks e' w) = fst (handleOverdueTasks e w)"
  using overdue_loop_mail_independent [OF assms, of "logger Debug ''Processing overdue tasks notification.'' w" 0 0]
  by (simp add: handle_fst)

lemma sweep_page_stable:
  "\<forall>k. overdue_rows (clock e k) w = R \<Longrightarrow>
     sweep_page e offset w = take batchSize (drop (offset div batchSize * batchSize) R)"
  by (simp add: sweep_page_def)

lemma after_page_stable:
  "\<forall>k. overdue_rows (clock e k) w = R \<Longrightarrow> overdue_rows (clock e k) (after_page e offset w) = R"
  by (simp add: overdue_rows_frame [of "after_page e offset w" w])

lemma overdue_loop_250:
  assumes ok: "\<forall>k. db_ok e k" and st: "\<forall>k. overdue_rows (clock e k) w = R"
    and len: "length R = 250"
  shows "fst (overdue_loop e 0 0 w) = Inr 250"
    and "reads (snd (overdue_loop e 0 0 w)) = reads w @
           [\<lparr>rd_skip = 0, rd_take = 100, rd_result = Some (take 100 R)\<rparr>,
            \<lparr>rd_skip = 100, rd_take = 100, rd_result = Some (take 100 (drop 100 R))\<rparr>,
            \<lparr>rd_skip = 200, rd_take = 100, rd_result = Some (drop 200 R)\<rparr>]"
proof -
  define wa where "wa = after_page e 0 w"
  define wb where "wb = after_page e 100 wa"
  define wc where "wc = after_page e 200 wb"
  have sta: "\<forall>k. overdue_rows (clock e k) wa = R"
    using st by (simp add: wa_def after_page_stable)
  then have stb: "\<forall>k. overdue_rows (clock e k) wb = R"
    by (simp add: wb_def after_page_stable)
  have p1: "sweep_page e 0 w = take 100 R"
    using sweep_page_stable [OF st, of 0] by (simp add: batchSize_def)
  have p2: "sweep_page e 100 wa = take 100 (drop 100 R)"
    using sweep_page_stable [OF sta, of 100] by (simp add: batchSize_def)
  have p3: "sweep_page e 200 wb = drop 200 R"
    using sweep_page_stable [OF stb, of 200] len by (simp add: batchSize_def)
  have ne: "R \<noteq> []" "drop 100 R \<noteq> []" "drop 200 R \<noteq> []"
    using len by auto
  have s1: "overdue_loop e 0 0 w = overdue_loop e 100 100 wa"
    using ok len ne by (subst overdue_loop_cases) (simp add: batchSize_def p1 wa_def)
  have s2: "overdue_loop e 100 100 wa = overdue_loop e 200 200 wb"
    using ok len ne by (subst overdue_loop_cases) (simp add: batchSize_def p2 wb_def)
  have s3: "overdue_loop e 200 200 wb = (Inr 250, wc)"
    using ok len ne by (subst overdue_loop_cases) (simp add: batchSize_def p3 wc_def)
  show "fst (overdue_loop e 0 0 w) = Inr 250"
    by (simp add: s1 s2 s3)
  have "reads wc = reads w @
           [\<lparr>rd_skip = 0, rd_take = 100, rd_result = Some (take 100 R)\<rparr>,
            \<lparr>rd_skip = 100, rd_take = 100, rd_result = Some (take 100 (drop 100 R))\<rparr>,
            \<lparr>rd_skip = 200, rd_take = 100, rd_result = Some (drop 200 R)\<rparr>]"
    using p1 p2 p3 by (simp add: wc_def wb_def wa_def batchSize_def)
  then show "reads (snd (overdue_loop e 0 0 w)) = reads w @
           [\<lparr>rd_skip = 0, rd_take = 100, rd_result = Some (take 100 R)\<rparr>,
            \<lparr>rd_skip = 100, rd_take = 100, rd_result = Some (take 100 (drop 100 R))\<rparr>,
            \<lparr>rd_skip = 200, rd_take = 100, rd_result = Some (drop 200 R)\<rparr>]"
    by (simp add: s1 s2 s3)
qed


subsection \<open>The example worlds evaluated\<close>

lemma matches_overdue_task:
  "500 \<le> t \<Longrightarrow> matches (findAll_where (overdue_query t 0) None False) (overdue_task i u)"
  by (simp add: findAll_where_overdue matches_def no_where_def overdue_task_def date_1900_def)

lemma created_overdue_task [simp]: "- createdAt (overdue_task i u) = int i"
  by (simp add: overdue_task_def)

lemma sorted_ints: "sorted (map int [0..<n])"
  by (induction n) (auto simp: sorted_append)

lemma find_rows_overdue_tasks:
  assumes "500 \<le> t"
  shows "find_rows (findAll_where (overdue_query t 0) None False) (map (\<lambda>i. overdue_task i u) [0..<n])
     = map (\<lambda>i. overdue_task i u) [0..<n]"
proof -
  have "filter (matches (findAll_where (overdue_query t 0) None False)) (map (\<lambda>i. overdue_task i u) [0..<n])
      = map (\<lambda>i. overdue_task i u) [0..<n]"
    using assms by (simp add: filter_map o_def matches_overdue_task)
  moreover have "sorted (map (\<lambda>r. - createdAt r) (map (\<lambda>i. overdue_task i u) [0..<n]))"
    using sorted_ints [of n] by (simp add: o_def)
  ultimately show ?thesis
    by (simp add: find_rows_def sort_key_id_if_sorted)
qed

lemma overdue_rows_ten:
  "overdue_rows 1000 ten_world = map (\<lambda>i. (overdue_task i ''u1'')\<lparr>user := Some alice\<rparr>) [0..<10]"
proof -
  have "overdue_rows 1000 ten_world = map (load_user [alice]) (map (\<lambda>i. overdue_task i ''u1'') [0..<10])"
    by (simp add: overdue_rows_def ten_world_def find_rows_overdue_tasks)
  also have "\<dots> = map (\<lambda>i. (overdue_task i ''u1'')\<lparr>user := Some alice\<rparr>) [0..<10]"
    by (simp add: load_user_def alice_def overdue_task_def)
  finally show ?thesis .
qed

lemma length_overdue_rows_big: "length (overdue_rows 1000 big_world) = 250"
  by (simp add: overdue_rows_def big_world_def find_rows_overdue_tasks)

lemma overdue_rows_old: "overdue_rows 1000 old_world = []"
  by (simp add: overdue_rows_def old_world_def find_rows_def filter_map o_def
      findAll_where_overdue matches_def no_where_def old_task_def overdue_task_def)

lemma overdue_rows_big:
  "overdue_rows 1000 big_world = map (\<lambda>i. (overdue_task i ''u1'')\<lparr>user := Some alice\<rparr>) [0..<250]"
proof -
  have "overdue_rows 1000 big_world = map (load_user [alice]) (map (\<lambda>i. overdue_task i ''u1'') [0..<250])"
    by (simp add: overdue_rows_def big_world_def find_rows_overdue_tasks)
  also have "\<dots> = map (\<lambda>i. (overdue_task i ''u1'')\<lparr>user := Some alice\<rparr>) [0..<250]"
    by (simp add: load_user_def alice_def overdue_task_def)
  finally show ?thesis .
qed


lemma overdue_rows_mixed:
  "overdue_rows 1000 mixed_world =
     [(overdue_task 0 ''u1'')\<lparr>user := Some alice\<rparr>, (overdue_task 1 ''u2'')\<lparr>user := Some bob\<rparr>,
      overdue_task 2 ''u9'']"
proof -
  have "find_rows (findAll_where (overdue_query 1000 0) None False) (store mixed_world)
      = [overdue_task 0 ''u1'', overdue_task 1 ''u2'', overdue_task 2 ''u9'']"
    by (simp add: find_rows_def mixed_world_def matches_overdue_task)
  then show ?thesis
    by (simp add: overdue_rows_def) (simp add: mixed_world_def load_user_def alice_def bob_def overdue_task_def)
qed

lemma upt_10: "[0..<10] = [0, 1, 2, 3, 4, 5, 6, 7, 8, 9::nat]"
  by code_simp

section \<open>The overdue sweep: properties\<close>

text \<open>
  What the paging does, whatever the store and the clock: every page the sweep reads but
  the last holds \<open>batchSize\<close> rows, and the last read returned fewer rows (none, maybe)
  or failed, so the sweep stops paging at the first page that is not full. When the
  reads succeed and the query of the sweep matches the same 250 rows \<open>R\<close> at every
  read, the sweep reads exactly three pages, at skips 0, 100 and 200, of 100, 100 and 50
  rows, and returns the count 250.
\<close>

lemma sweep_pages_of_query:
  "(\<exists>rs. reads (snd (handleOverdueTasks e w)) = reads w @ rs \<and> rs \<noteq> []
      \<and> map (\<lambda>r. map_option length (rd_result r)) (butlast rs)
          = replicate (length rs - 1) (Some batchSize)
      \<and> (case rd_result (last rs) of None \<Rightarrow> True | Some pg \<Rightarrow> length pg < batchSize))
   \<and> ((\<forall>k. db_ok e k) \<and> (\<forall>k. overdue_rows (clock e k) w = R) \<and> length R = 250 \<longrightarrow>
        fst (handleOverdueTasks e w) = Inr (OverdueCompleted 250)
      \<and> reads (snd (handleOverdueTasks e w)) = reads w @
           [\<lparr>rd_skip = 0, rd_take = 100, rd_result = Some (take 100 R)\<rparr>,
            \<lparr>rd_skip = 100, rd_take = 100, rd_result = Some (take 100 (drop 100 R))\<rparr>,
            \<lparr>rd_skip = 200, rd_take = 100, rd_result = Some (drop 200 R)\<rparr>]
      \<and> length (take 100 R) = 100 \<and> length (take 100 (drop 100 R)) = 100
      \<and> length (drop 200 R) = 50)"
proof (intro conjI impI)
  let ?w0 = "logger Debug ''Processing overdue tasks notification.'' w"
  show "\<exists>rs. reads (snd (handleOverdueTasks e w)) = reads w @ rs \<and> rs \<noteq> []
      \<and> map (\<lambda>r. map_option length (rd_result r)) (butlast rs)
          = replicate (length rs - 1) (Some batchSize)
      \<and> (case rd_result (last rs) of None \<Rightarrow> True | Some pg \<Rightarrow> length pg < batchSize)"
    using overdue_loop_pages [of e 0 0 ?w0] by (simp add: handle_snd)
  assume h: "(\<forall>k. db_ok e k) \<and> (\<forall>k. overdue_rows (clock e k) w = R) \<and> length R = 250"
  then have st: "\<forall>k. overdue_rows (clock e k) ?w0 = R"
    by (simp add: overdue_rows_frame [of ?w0 w])
  from h have ok: "\<forall>k. db_ok e k" and len: "length R = 250"
    by simp_all
  show "fst (handleOverdueTasks e w) = Inr (OverdueCompleted 250)"
    using overdue_loop_250(1) [OF ok st len] by (simp add: handle_fst)
  show "reads (snd (handleOverdueTasks e w)) = reads w @
           [\<lparr>rd_skip = 0, rd_take = 100, rd_result = Some (take 100 R)\<rparr>,
            \<lparr>rd_skip = 100, rd_take = 100, rd_result = Some (take 100 (drop 100 R))\<rparr>,
            \<lparr>rd_skip = 200, rd_take = 100, rd_result = Some (drop 200 R)\<rparr>]"
    using overdue_loop_250(2) [OF ok st len] by (simp add: handle_snd)
  show "length (take 100 R) = 100" "length (take 100 (drop 100 R)) = 100" "length (drop 200 R) = 50"
    using len by simp_all
qed

text \<open>
  The number of reads: when at every read the query of the sweep matches at most \<open>N\<close>
  rows, the loop makes at most \<open>ceil (N / batchSize) + 1\<close> iterations (one read of a
  page each), whatever the reads and the mails return. The loop is a total function: it
  terminates on every input.
\<close>

lemma sweep_reads_bound:
  assumes "\<forall>k. length (overdue_rows (clock e k) w) \<le> N"
  shows "\<exists>rs. reads (snd (handleOverdueTasks e w)) = reads w @ rs
     \<and> length rs \<le> (N + (batchSize - 1)) div batchSize + 1"
proof -
  let ?w0 = "logger Debug ''Processing overdue tasks notification.'' w"
  obtain rs where rs: "reads (snd (overdue_loop e 0 0 ?w0)) = reads ?w0 @ rs"
    using overdue_loop_trace [of e 0 0 ?w0] by blast
  have "\<forall>k. length (overdue_rows (clock e k) ?w0) \<le> N"
    using assms by (simp add: overdue_rows_frame [of ?w0 w])
  then have "length (reads (snd (overdue_loop e 0 0 ?w0))) \<le> length (reads ?w0) + (N - 0 div batchSize * batchSize) div batchSize + 1"
    using overdue_loop_bound [of e ?w0 N 0 0] by blast
  with rs have "length rs \<le> N div batchSize + 1"
    by simp
  moreover have "N div batchSize \<le> (N + (batchSize - 1)) div batchSize"
    by (rule div_le_mono) simp
  ultimately have "length rs \<le> (N + (batchSize - 1)) div batchSize + 1"
    by linarith
  with rs show ?thesis by (simp add: handle_snd)
qed

text \<open>
  Claim C6, at an input where the code departs from it. A store holds exactly 250 tasks
  that are pending and due before now, all of them due on the last millisecond of 1899,
  each of a user with an email. \<^verbatim>\<open>findAll\<close> turns \<^verbatim>\<open>dueDateBefore\<close> into
  \<^verbatim>\<open>Between(new Date('1900-01-01'), now)\<close>, which none of them matches: the sweep
  reads one empty page, returns the count 0 and attempts no mail, where the claim has
  three pages of 100, 100 and 50 rows and the count 250.
\<close>

theorem sweep_skips_tasks_due_before_1900:
  "length (filter (strictly_overdue (clock steady_env 0)) (store old_world)) = 250
   \<and> length (filter notifiable (map (load_user (users old_world)) (store old_world))) = 250
   \<and> fst (handleOverdueTasks steady_env old_world) = Inr (OverdueCompleted 0)
   \<and> map rd_result (reads (snd (handleOverdueTasks steady_env old_world))) = [Some []]
   \<and> outbox (snd (handleOverdueTasks steady_env old_world)) = []"
proof -
  have "filter (strictly_overdue 1000) (map old_task [0..<250]) = map old_task [0..<250]"
    by (simp add: filter_map o_def strictly_overdue_def old_task_def overdue_task_def date_1900_def)
  then have a: "length (filter (strictly_overdue (clock steady_env 0)) (store old_world)) = 250"
    by (simp add: steady_env_def old_world_def)
  have "filter notifiable (map (load_user [alice]) (map old_task [0..<250]))
      = map (load_user [alice]) (map old_task [0..<250])"
    by (simp add: filter_map o_def notifiable_def load_user_def old_task_def overdue_task_def alice_def)
  then have n: "length (filter notifiable (map (load_user (users old_world)) (store old_world))) = 250"
    by (simp add: old_world_def)
  have ok: "\<forall>k. db_ok steady_env k"
    and st: "\<forall>k. overdue_rows (clock steady_env k) old_world = []"
    by (simp_all add: steady_env_def overdue_rows_old)
  have b: "fst (handleOverdueTasks steady_env old_world) = Inr (OverdueCompleted 0)"
    using handle_stable(1) [OF ok st] by simp
  let ?w0 = "logger Debug ''Processing overdue tasks notification.'' old_world"
  have pg: "sweep_page steady_env 0 ?w0 = []"
    using st by (simp add: sweep_page_def overdue_rows_frame [of ?w0 old_world])
  then have l: "overdue_loop steady_env 0 0 ?w0 = (Inr 0, after_read steady_env 0 ?w0)"
    using ok by (subst overdue_loop_cases) simp
  have c: "map rd_result (reads (snd (handleOverdueTasks steady_env old_world))) = [Some []]"
    using l pg by (simp add: handle_snd old_world_def)
  have d: "outbox (snd (handleOverdueTasks steady_env old_world)) = []"
    using l by (simp add: handle_snd old_world_def)
  from a n b c d show ?thesis by simp
qed


text \<open>
  Claim C8. When the reads of the store succeed, the sweep completes with a result,
  whatever the calls of \<^verbatim>\<open>sendMail\<close> return: every task of every page read that has a
  user with an email has its mail attempted, in order, and the k-th attempt has the
  outcome the mailer gave it. What the mailer answers changes neither the pages read nor
  the tasks mailed: with any other answers of the mailer (none failing, say) the sweep
  returns the same count, reads the same pages and attempts the same mails. And when the
  query matches the same rows \<open>R\<close> at every read, the pages read are all of \<open>R\<close>, so
  that every row of \<open>R\<close> with a user and an email, on the page of a failed mail or on
  a later one, has its mail attempted.
\<close>

theorem sweep_survives_mail_failure:
  assumes "\<forall>k. db_ok e k"
  shows "\<exists>m rs ms.
      fst (handleOverdueTasks e w) = Inr (OverdueCompleted m)
    \<and> reads (snd (handleOverdueTasks e w)) = reads w @ rs
    \<and> outbox (snd (handleOverdueTasks e w)) = outbox w @ ms
    \<and> map mail_task ms = map task_id (filter notifiable (fetched rs))
    \<and> map mail_sent ms = map (mail_ok e) [length (outbox w) ..< length (outbox w) + length ms]
    \<and> (\<forall>e'. clock e' = clock e \<and> db_ok e' = db_ok e \<longrightarrow>
          fst (handleOverdueTasks e' w) = Inr (OverdueCompleted m)
        \<and> reads (snd (handleOverdueTasks e' w)) = reads w @ rs
        \<and> mailed_ids w (snd (handleOverdueTasks e' w)) = map mail_task ms)
    \<and> (\<forall>R. (\<forall>k. overdue_rows (clock e k) w = R) \<longrightarrow> fetched rs = R \<and> m = length R)"
proof -
  let ?w0 = "logger Debug ''Processing overdue tasks notification.'' w"
  obtain m where m: "fst (overdue_loop e 0 0 ?w0) = Inr m"
    using overdue_loop_succeeds [of e 0 0 ?w0] assms by blast
  obtain rs ms where t: "reads (snd (overdue_loop e 0 0 ?w0)) = reads ?w0 @ rs"
    "outbox (snd (overdue_loop e 0 0 ?w0)) = outbox ?w0 @ ms"
    "map mail_task ms = map task_id (filter notifiable (fetched rs))"
    "map mail_sent ms = map (mail_ok e) [length (outbox ?w0) ..< length (outbox ?w0) + length ms]"
    using overdue_loop_trace [of e 0 0 ?w0] by blast
  have a: "fst (handleOverdueTasks e w) = Inr (OverdueCompleted m)"
    using m by (simp add: handle_fst)
  have b: "reads (snd (handleOverdueTasks e w)) = reads w @ rs"
    using t(1) by (simp add: handle_snd)
  have c: "outbox (snd (handleOverdueTasks e w)) = outbox w @ ms"
    using t(2) by (simp add: handle_snd)
  have d: "map mail_sent ms = map (mail_ok e) [length (outbox w) ..< length (outbox w) + length ms]"
    using t(4) by simp
  have ind: "fst (handleOverdueTasks e' w) = Inr (OverdueCompleted m)
        \<and> reads (snd (handleOverdueTasks e' w)) = reads w @ rs
        \<and> mailed_ids w (snd (handleOverdueTasks e' w)) = map mail_task ms"
    if h: "clock e' = clock e \<and> db_ok e' = db_ok e" for e'
  proof -
    from h have ck: "clock e' = clock e" and db: "db_ok e' = db_ok e"
      by simp_all
    have same: "fst (overdue_loop e' 0 0 ?w0) = fst (overdue_loop e 0 0 ?w0)"
      "reads (snd (overdue_loop e' 0 0 ?w0)) = reads (snd (overdue_loop e 0 0 ?w0))"
      using overdue_loop_mail_independent [OF ck db, of ?w0 0 0] by simp_all
    obtain rs' ms' where t': "reads (snd (overdue_loop e' 0 0 ?w0)) = reads ?w0 @ rs'"
      "outbox (snd (overdue_loop e' 0 0 ?w0)) = outbox ?w0 @ ms'"
      "map mail_task ms' = map task_id (filter notifiable (fetched rs'))"
      using overdue_loop_trace [of e' 0 0 ?w0] by blast
    from t'(1) same(2) t(1) have "rs' = rs"
      by simp
    with t'(3) t(3) have "map mail_task ms' = map mail_task ms"
      by simp
    with t'(2) have "mailed_ids w (snd (handleOverdueTasks e' w)) = map mail_task ms"
      by (simp add: mailed_ids_def handle_snd)
    moreover have "fst (handleOverdueTasks e' w) = Inr (OverdueCompleted m)"
      using same(1) m by (simp add: handle_fst)
    moreover have "reads (snd (handleOverdueTasks e' w)) = reads w @ rs"
      using same(2) t(1) by (simp add: handle_snd)
    ultimately show ?thesis
      by simp
  qed
  have stab: "fetched rs = R \<and> m = length R" if st: "\<forall>k. overdue_rows (clock e k) w = R" for R
  proof -
    from handle_stable(2) [OF assms st] b have "fetched rs = R"
      by simp
    moreover from handle_stable(1) [OF assms st] a have "m = length R"
      by simp
    ultimately show ?thesis
      by simp
  qed
  from a b c t(3) d ind stab show ?thesis
    by blast
qed

text \<open>
  The theorem of C8 at a page of ten tasks where the fourth call of \<^verbatim>\<open>sendMail\<close>
  fails (the sweep completes with the count 10, and the other nine mails are sent), and
  at 250 tasks where the fourth call fails: the sweep reads its three pages and attempts
  the 250 mails, as it does when no call fails, the 246 of them after the failed one
  included.
\<close>

theorem sweep_survives_mail_failure_witness:
  "(\<forall>k. db_ok flaky_env k)
   \<and> fst (handleOverdueTasks flaky_env ten_world) = Inr (OverdueCompleted 10)
   \<and> map mail_sent (outbox (snd (handleOverdueTasks flaky_env ten_world)))
       = [True, True, True, False, True, True, True, True, True, True]
   \<and> fst (handleOverdueTasks flaky_env big_world) = Inr (OverdueCompleted 250)
   \<and> map (\<lambda>r. map_option length (rd_result r)) (reads (snd (handleOverdueTasks flaky_env big_world)))
       = [Some 100, Some 100, Some 50]
   \<and> mailed_ids big_world (snd (handleOverdueTasks flaky_env big_world))
       = map task_id (overdue_rows 1000 big_world)
   \<and> length (mailed_ids big_world (snd (handleOverdueTasks flaky_env big_world))) = 250
   \<and> map mail_sent (outbox (snd (handleOverdueTasks flaky_env big_world)))
       = map (\<lambda>k. k \<noteq> 3) [0..<250]
   \<and> mailed_ids big_world (snd (handleOverdueTasks steady_env big_world))
       = mailed_ids big_world (snd (handleOverdueTasks flaky_env big_world))"
proof -
  have ok: "\<forall>k. db_ok flaky_env k"
    by (simp add: flaky_env_def)
  have st: "\<forall>k. overdue_rows (clock flaky_env k) ten_world = overdue_rows 1000 ten_world"
    by (simp add: flaky_env_def)
  have nf: "filter notifiable (overdue_rows 1000 ten_world) = overdue_rows 1000 ten_world"
    by (simp add: overdue_rows_ten filter_map o_def notifiable_def alice_def)
  from sweep_survives_mail_failure [OF ok, of ten_world] obtain m rs ms where
    r: "fst (handleOverdueTasks flaky_env ten_world) = Inr (OverdueCompleted m)"
      "outbox (snd (handleOverdueTasks flaky_env ten_world)) = outbox ten_world @ ms"
      "map mail_task ms = map task_id (filter notifiable (fetched rs))"
      "map mail_sent ms = map (mail_ok flaky_env) [length (outbox ten_world) ..< length (outbox ten_world) + length ms]"
      "\<forall>R. (\<forall>k. overdue_rows (clock flaky_env k) ten_world = R) \<longrightarrow> fetched rs = R \<and> m = length R"
    by blast
  from r(5) st have f: "fetched rs = overdue_rows 1000 ten_world" "m = length (overdue_rows 1000 ten_world)"
    by blast+
  from f(1) r(3) nf have "length ms = 10"
    using length_map [of mail_task ms] by (simp add: overdue_rows_ten)
  with r(2,4) have "map mail_sent (outbox (snd (handleOverdueTasks flaky_env ten_world)))
       = map (mail_ok flaky_env) [0..<10]"
    by (simp add: ten_world_def)
  moreover have "map (mail_ok flaky_env) [0..<10]
      = [True, True, True, False, True, True, True, True, True, True]"
    by (simp add: flaky_env_def upt_10)
  ultimately have ten: "map mail_sent (outbox (snd (handleOverdueTasks flaky_env ten_world)))
       = [True, True, True, False, True, True, True, True, True, True]"
    by simp
  have ten_n: "fst (handleOverdueTasks flaky_env ten_world) = Inr (OverdueCompleted 10)"
    using r(1) f(2) by (simp add: overdue_rows_ten)
  have stb: "\<forall>k. overdue_rows (clock flaky_env k) big_world = overdue_rows 1000 big_world"
    by (simp add: flaky_env_def)
  have nfb: "filter notifiable (overdue_rows 1000 big_world) = overdue_rows 1000 big_world"
    by (simp add: overdue_rows_big filter_map o_def notifiable_def alice_def)
  have ob: "outbox big_world = []" "reads big_world = []"
    by (simp_all add: big_world_def)
  from sweep_survives_mail_failure [OF ok, of big_world] obtain m' rs' ms' where
    q: "fst (handleOverdueTasks flaky_env big_world) = Inr (OverdueCompleted m')"
      "reads (snd (handleOverdueTasks flaky_env big_world)) = reads big_world @ rs'"
      "outbox (snd (handleOverdueTasks flaky_env big_world)) = outbox big_world @ ms'"
      "map mail_task ms' = map task_id (filter notifiable (fetched rs'))"
      "map mail_sent ms' = map (mail_ok flaky_env) [length (outbox big_world) ..< length (outbox big_world) + length ms']"
      "\<forall>e'. clock e' = clock flaky_env \<and> db_ok e' = db_ok flaky_env \<longrightarrow>
          fst (handleOverdueTasks e' big_world) = Inr (OverdueCompleted m')
        \<and> reads (snd (handleOverdueTasks e' big_world)) = reads big_world @ rs'
        \<and> mailed_ids big_world (snd (handleOverdueTasks e' big_world)) = map mail_task ms'"
      "\<forall>R. (\<forall>k. overdue_rows (clock flaky_env k) big_world = R) \<longrightarrow> fetched rs' = R \<and> m' = length R"
    by blast
  from q(7) stb have g: "fetched rs' = overdue_rows 1000 big_world" "m' = length (overdue_rows 1000 big_world)"
    by blast+
  have big_n: "fst (handleOverdueTasks flaky_env big_world) = Inr (OverdueCompleted 250)"
    using q(1) g(2) by (simp add: length_overdue_rows_big)
  have ids: "map mail_task ms' = map task_id (overdue_rows 1000 big_world)"
    using q(4) g(1) nfb by simp
  then have len: "length ms' = 250"
    using length_map [of mail_task ms'] by (simp add: length_overdue_rows_big)
  have big_ids: "mailed_ids big_world (snd (handleOverdueTasks flaky_env big_world))
       = map task_id (overdue_rows 1000 big_world)"
    using q(3) ids ob by (simp add: mailed_ids_def)
  have big_sent: "map mail_sent (outbox (snd (handleOverdueTasks flaky_env big_world)))
       = map (\<lambda>k. k \<noteq> 3) [0..<250]"
    using q(3,5) len ob by (simp add: flaky_env_def)
  have "clock steady_env = clock flaky_env \<and> db_ok steady_env = db_ok flaky_env"
    by (simp add: steady_env_def flaky_env_def)
  with q(6) have "mailed_ids big_world (snd (handleOverdueTasks steady_env big_world)) = map mail_task ms'"
    by blast
  with ids big_ids have big_same: "mailed_ids big_world (snd (handleOverdueTasks steady_env big_world))
       = mailed_ids big_world (snd (handleOverdueTasks flaky_env big_world))"
    by simp
  have "ok250": "(\<forall>k. db_ok flaky_env k) \<and> (\<forall>k. overdue_rows (clock flaky_env k) big_world = overdue_rows 1000 big_world)
      \<and> length (overdue_rows 1000 big_world) = 250"
    using ok stb length_overdue_rows_big by simp
  have pages: "map (\<lambda>r. map_option length (rd_result r)) (reads (snd (handleOverdueTasks flaky_env big_world)))
       = [Some 100, Some 100, Some 50]"
    using sweep_pages_of_query [of flaky_env big_world "overdue_rows 1000 big_world"] ok250 ob
    by simp
  have big_len: "length (mailed_ids big_world (snd (handleOverdueTasks flaky_env big_world))) = 250"
    using big_ids by (simp add: length_overdue_rows_big)
  from ok ten_n ten big_n pages big_ids big_len big_sent big_same show ?thesis
    by simp
qed

text \<open>
  Claim C9. A sweep leaves the task table as it was, and so does a second sweep right
  after it. When the reads succeed and the query matches the same rows \<open>R\<close> at every
  read of both sweeps, each of the two sweeps calls \<^verbatim>\<open>sendMail\<close> for the same tasks:
  those of \<open>R\<close> that have a user with an email.
\<close>

theorem sweep_twice_same_mails:
  assumes "w1 = snd (handleOverdueTasks e w)" and "w2 = snd (handleOverdueTasks e w1)"
  shows "store w1 = store w \<and> store w2 = store w
    \<and> ((\<forall>k. db_ok e k) \<and> (\<forall>k. overdue_rows (clock e k) w = R)
        \<longrightarrow> mailed_ids w w1 = map task_id (filter notifiable R)
          \<and> mailed_ids w1 w2 = map task_id (filter notifiable R))"
proof -
  have run: "mailed_ids v (snd (handleOverdueTasks e v)) = map task_id (filter notifiable R)"
    if ok: "\<forall>k. db_ok e k" and st: "\<forall>k. overdue_rows (clock e k) v = R" for v
  proof -
    let ?v0 = "logger Debug ''Processing overdue tasks notification.'' v"
    obtain rs ms where t: "reads (snd (overdue_loop e 0 0 ?v0)) = reads ?v0 @ rs"
      "outbox (snd (overdue_loop e 0 0 ?v0)) = outbox ?v0 @ ms"
      "map mail_task ms = map task_id (filter notifiable (fetched rs))"
      using overdue_loop_trace [of e 0 0 ?v0] by blast
    have "\<forall>k. overdue_rows (clock e k) ?v0 = R"
      using st by (simp add: overdue_rows_frame [of ?v0 v])
    then obtain rs' where rs': "reads (snd (overdue_loop e 0 0 ?v0)) = reads ?v0 @ rs'"
      "fetched rs' = drop (0 div batchSize * batchSize) R"
      using overdue_loop_stable [of e ?v0 R 0 0] ok by auto
    from t(1) rs'(1) have "rs' = rs" by simp
    with rs'(2) have "fetched rs = R" by simp
    with t show ?thesis by (simp add: mailed_ids_def handle_snd)
  qed
  have s1: "store w1 = store w" and u1: "users w1 = users w"
    using assms(1) by (simp_all add: handle_frame)
  have s2: "store w2 = store w"
    using assms(2) s1 by (simp add: handle_frame)
  have "mailed_ids w w1 = map task_id (filter notifiable R)
      \<and> mailed_ids w1 w2 = map task_id (filter notifiable R)"
    if ok: "\<forall>k. db_ok e k" and st: "\<forall>k. overdue_rows (clock e k) w = R"
  proof -
    have "\<forall>k. overdue_rows (clock e k) w1 = R"
      using st by (simp add: overdue_rows_frame [OF s1 u1])
    then show ?thesis
      using run [OF ok st] run [OF ok, of w1] assms by simp
  qed
  with s1 s2 show ?thesis by blast
qed

text \<open>The theorem of C9 at the world of ten overdue tasks, swept twice.\<close>

theorem sweep_twice_same_mails_witness:
  "store (snd (handleOverdueTasks flaky_env ten_world)) = store ten_world
   \<and> store (snd (handleOverdueTasks flaky_env (snd (handleOverdueTasks flaky_env ten_world)))) = store ten_world
   \<and> mailed_ids ten_world (snd (handleOverdueTasks flaky_env ten_world))
       = mailed_ids (snd (handleOverdueTasks flaky_env ten_world))
           (snd (handleOverdueTasks flaky_env (snd (handleOverdueTasks flaky_env ten_world))))
   \<and> length (mailed_ids ten_world (snd (handleOverdueTasks flaky_env ten_world))) = 10"
proof -
  have h: "(\<forall>k. db_ok flaky_env k)
      \<and> (\<forall>k. overdue_rows (clock flaky_env k) ten_world = overdue_rows 1000 ten_world)"
    by (simp add: flaky_env_def)
  have "length (filter notifiable (overdue_rows 1000 ten_world)) = 10"
    by (simp add: overdue_rows_ten filter_map o_def notifiable_def alice_def)
  with h sweep_twice_same_mails [OF refl refl, of flaky_env ten_world "overdue_rows 1000 ten_world"]
  show ?thesis
    by simp
qed

text \<open>
  Claim C10. The count a sweep returns is the number of rows its page reads returned,
  whatever the mails did: a mail is attempted only for the rows with a user and an
  email, and the count adds to these attempts, sent or failed, the rows that were
  skipped. With the same clock and the same answers of the store, any other outcomes
  of the mails give the same count.
\<close>

theorem sweep_total_counts_rows:
  assumes "fst (handleOverdueTasks e w) = Inr (OverdueCompleted m)"
  shows "\<exists>rs ms.
      reads (snd (handleOverdueTasks e w)) = reads w @ rs
    \<and> outbox (snd (handleOverdueTasks e w)) = outbox w @ ms
    \<and> m = length (fetched rs)
    \<and> length ms = length (filter notifiable (fetched rs))
    \<and> m = length ms + length (filter (\<lambda>t. \<not> notifiable t) (fetched rs))
    \<and> (\<forall>e'. clock e' = clock e \<and> db_ok e' = db_ok e \<longrightarrow>
          fst (handleOverdueTasks e' w) = Inr (OverdueCompleted m))"
proof -
  let ?w0 = "logger Debug ''Processing overdue tasks notification.'' w"
  obtain rs ms where t: "reads (snd (overdue_loop e 0 0 ?w0)) = reads ?w0 @ rs"
    "outbox (snd (overdue_loop e 0 0 ?w0)) = outbox ?w0 @ ms"
    "map mail_task ms = map task_id (filter notifiable (fetched rs))"
    "(case fst (overdue_loop e 0 0 ?w0) of Inr k \<Rightarrow> k = 0 + length (fetched rs)
       | Inl err \<Rightarrow> err = StoreError)"
    using overdue_loop_trace [of e 0 0 ?w0] by blast
  from assms t(4) have m: "m = length (fetched rs)"
    by (simp add: handle_fst split: sum.splits)
  from t(3) have len: "length ms = length (filter notifiable (fetched rs))"
    using length_map by metis
  have split: "length (fetched rs) = length (filter notifiable (fetched rs))
      + length (filter (\<lambda>t. \<not> notifiable t) (fetched rs))"
    by (rule sum_length_filter_compl [symmetric])
  have ind: "fst (handleOverdueTasks e' w) = Inr (OverdueCompleted m)"
    if "clock e' = clock e \<and> db_ok e' = db_ok e" for e'
  proof -
    have "fst (handleOverdueTasks e' w) = fst (handleOverdueTasks e w)"
      by (rule handle_mail_independent) (use that in simp_all)
    with assms show ?thesis by simp
  qed
  have a: "reads (snd (handleOverdueTasks e w)) = reads w @ rs"
    using t(1) by (simp add: handle_snd)
  have b: "outbox (snd (handleOverdueTasks e w)) = outbox w @ ms"
    using t(2) by (simp add: handle_snd)
  have c: "m = length ms + length (filter (\<lambda>t. \<not> notifiable t) (fetched rs))"
    using m len split by simp
  from a b m len c ind show ?thesis
    by blast
qed

text \<open>
  The theorem of C10 at three overdue tasks, one of a user with an email, one of a user
  without, one of no user, with a mailer that fails: the count is 3, one mail was
  attempted and none was sent; with a mailer that works the count is 3 as well.
\<close>

theorem sweep_total_counts_rows_witness:
  "fst (handleOverdueTasks down_env mixed_world) = Inr (OverdueCompleted 3)
   \<and> length (outbox (snd (handleOverdueTasks down_env mixed_world))) = 1
   \<and> filter mail_sent (outbox (snd (handleOverdueTasks down_env mixed_world))) = []
   \<and> fst (handleOverdueTasks steady_env mixed_world) = Inr (OverdueCompleted 3)"
proof -
  have ok: "\<forall>k. db_ok down_env k"
    and st: "\<forall>k. overdue_rows (clock down_env k) mixed_world = overdue_rows 1000 mixed_world"
    by (simp_all add: down_env_def)
  have h: "fst (handleOverdueTasks down_env mixed_world) = Inr (OverdueCompleted 3)"
    using handle_stable(1) [OF ok st] by (simp add: overdue_rows_mixed)
  from sweep_total_counts_rows [OF h] obtain rs ms where
    r: "reads (snd (handleOverdueTasks down_env mixed_world)) = reads mixed_world @ rs"
      "outbox (snd (handleOverdueTasks down_env mixed_world)) = outbox mixed_world @ ms"
      "length ms = length (filter notifiable (fetched rs))"
      "\<forall>e'. clock e' = clock down_env \<and> db_ok e' = db_ok down_env \<longrightarrow>
          fst (handleOverdueTasks e' mixed_world) = Inr (OverdueCompleted 3)"
    by blast
  have "clock steady_env = clock down_env \<and> db_ok steady_env = db_ok down_env"
    by (simp add: steady_env_def down_env_def)
  with r(4) have other: "fst (handleOverdueTasks steady_env mixed_world) = Inr (OverdueCompleted 3)"
    by blast
  from handle_stable(2) [OF ok st] r(1) have f: "fetched rs = overdue_rows 1000 mixed_world"
    by simp
  have "length (filter notifiable (overdue_rows 1000 mixed_world)) = 1"
    by (simp add: overdue_rows_mixed notifiable_def alice_def bob_def overdue_task_def)
  with r(3) f have one: "length ms = 1"
    by simp
  from handle_stable(3) [OF ok st] r(2) have
    "map mail_sent ms = map (mail_ok down_env) [length (outbox mixed_world) ..< length (outbox mixed_world) + length ms]"
    by simp
  then have "map mail_sent ms = [False]"
    using one by (simp add: down_env_def mixed_world_def)
  then have none: "filter mail_sent ms = []"
    by (cases ms) auto
  have ob: "outbox mixed_world = []"
    by (simp add: mixed_world_def)
  from h one none other r(2) ob show ?thesis
    by simp
qed

section \<open>The producers: properties\<close>

lemma transaction_cases:
  "transaction x body w =
     (case body w of
        (Inl err, w1) \<Rightarrow> (Inl err, w1\<lparr>store := store w\<rparr>)
      | (Inr r, w1) \<Rightarrow>
          if commit_ok x then (Inr r, w1) else (Inl StoreError, w1\<lparr>store := store w\<rparr>))"
  by (simp add: transaction_def)

lemma create_result:
  "create x dto uid w =
     (let t = (entity_create x dto uid)\<lparr>task_id := new_id x\<rparr>;
          w0 = logger Log ''Attempting to create task for user'' w
      in if \<not> save_ok x then (Inl StoreError, w0)
         else if \<not> add_ok x then (Inl QueueError, w0)
         else if \<not> commit_ok x then
           (Inl StoreError,
            (logger Log ''Task created and queued successfully''
               (w0\<lparr>store := store w @ [t], queue := queue w @ [status_job (task_id t) (status t)]\<rparr>))
             \<lparr>store := store w\<rparr>)
         else
           (Inr t,
            logger Log ''Task created and queued successfully''
              (w0\<lparr>store := store w @ [t], queue := queue w @ [status_job (task_id t) (status t)]\<rparr>)))"
  by (simp add: create_def transaction_def save_insert_def queue_add_def Let_def status_job_def
      TaskResponseDto_def logger_def)

text \<open>
  Three of the outcomes of \<^verbatim>\<open>create\<close>. When it succeeds, the new task is in the table
  and exactly one \<^verbatim>\<open>task-status-update\<close> job has been added, carrying the new task's
  id and its initial status (the status of the request, or the column's default); it
  does succeed when the save, the enqueue and the commit do. When the save fails,
  \<^verbatim>\<open>create\<close> returns an error, and neither a job nor a task has been added. When the
  save succeeds and the enqueue fails, \<^verbatim>\<open>create\<close> returns the queue's error, the
  write is rolled back, and no task and no job remain.
\<close>

lemma create_cases:
  "(\<forall>t w'. create x dto uid w = (Inr t, w') \<longrightarrow>
       store w' = store w @ [t]
     \<and> queue w' = queue w @ [status_job (task_id t) (status t)]
     \<and> task_id t = new_id x
     \<and> status t = (case c_status dto of Some s \<Rightarrow> s | None \<Rightarrow> default_status x))
   \<and> (save_ok x \<and> add_ok x \<and> commit_ok x \<longrightarrow> (\<exists>t w'. create x dto uid w = (Inr t, w')))
   \<and> (\<not> save_ok x \<longrightarrow>
        (\<exists>err w'. create x dto uid w = (Inl err, w') \<and> queue w' = queue w \<and> store w' = store w))
   \<and> (save_ok x \<and> \<not> add_ok x \<longrightarrow>
        (\<exists>w'. create x dto uid w = (Inl QueueError, w') \<and> store w' = store w \<and> queue w' = queue w))"
  by (auto simp: create_result Let_def entity_create_def split: if_splits)

text \<open>
  The fourth outcome: the queue is no part of the database transaction, so when the
  commit itself fails after the enqueue, \<^verbatim>\<open>create\<close> returns an error with no task
  persisted, and the job stays on the queue.
\<close>

lemma create_commit_failure:
  "save_ok x \<Longrightarrow> add_ok x \<Longrightarrow> \<not> commit_ok x \<Longrightarrow>
     \<exists>w'. create x dto uid w = (Inl StoreError, w') \<and> store w' = store w
       \<and> queue w' = queue w @ [status_job (new_id x)
            (case c_status dto of Some s \<Rightarrow> s | None \<Rightarrow> default_status x)]"
  by (simp add: create_result Let_def entity_create_def)

text \<open>
  Claim C1, at an input where the code departs from it. A request to create a task
  whose save and whose enqueue succeed, and whose transaction then fails to commit:
  \<^verbatim>\<open>create\<close> returns an error and the table holds no task, yet the job for the task
  that was never persisted is on the queue. The write and the enqueue are no unit: this
  failure of the persistence write leaves an orphaned job.
\<close>

theorem create_orphans_job_on_commit_failure:
  "fst (create (good_io\<lparr>commit_ok := False\<rparr>) report_dto ''u1'' empty_world) = Inl StoreError
   \<and> store (snd (create (good_io\<lparr>commit_ok := False\<rparr>) report_dto ''u1'' empty_world)) = []
   \<and> queue (snd (create (good_io\<lparr>commit_ok := False\<rparr>) report_dto ''u1'' empty_world))
       = [status_job ''t-new'' PENDING]"
  by (simp add: create_result Let_def entity_create_def good_io_def report_dto_def empty_world_def
      logger_def)

text \<open>
  The outcomes of \<^verbatim>\<open>update\<close>. An update that succeeds found the task (the snapshot
  \<open>task0\<close> that \<^verbatim>\<open>findOne\<close> loaded before the merge) and has saved the merged task
  in its row; when the status after the update equals the snapshot's, the queue is as it
  was; when it differs, exactly one \<^verbatim>\<open>task-status-update\<close> job has been added,
  carrying the new status. An update that fails has added no job.
\<close>

lemma update_cases:
  "(\<forall>t w'. update x tid dto uid isAdmin w = (Inr t, w') \<longrightarrow>
      (\<exists>task0.
          find (matches (no_where\<lparr>w_ids := Some [tid],
                  w_userId := (if \<not> isAdmin then Some uid else None)\<rparr>)) (store w) = Some task0
        \<and> t = merge (load_user (users w) task0) dto
        \<and> store w' = map (\<lambda>r. if task_id r = task_id t then t\<lparr>user := None\<rparr> else r) (store w)
        \<and> status t = (case u_status dto of Some s \<Rightarrow> s | None \<Rightarrow> status task0)
        \<and> (status t = status task0 \<longrightarrow> queue w' = queue w)
        \<and> (status t \<noteq> status task0 \<longrightarrow>
             queue w' = queue w @ [status_job (task_id t) (status t)])))
   \<and> (\<forall>err w'. update x tid dto uid isAdmin w = (Inl err, w') \<longrightarrow> queue w' = queue w)"
  by (auto simp: update_def findOne_def save_update_def queue_add_def merge_def Let_def
      TaskResponseDto_def load_user_def status_job_def logger_def
      split: if_splits option.splits prod.splits sum.splits)

text \<open>
  Claim C2, at an input where the code departs from it. A user completes their pending
  task while the queue rejects the job. \<^verbatim>\<open>update\<close> has saved the task before it calls
  \<^verbatim>\<open>add\<close>, and it runs in no transaction: it raises the queue's error with the table
  holding the changed status and no job enqueued, where the claim has exactly one job
  for a status that changed. \<^verbatim>\<open>create\<close>, at the same failure of the queue, rolls its
  write back.
\<close>

theorem update_keeps_status_without_job:
  "map status (store one_task_world) = [PENDING]
   \<and> fst (update (good_io\<lparr>add_ok := False\<rparr>) ''t1'' complete_dto ''u1'' False one_task_world)
       = Inl QueueError
   \<and> map status (store (snd (update (good_io\<lparr>add_ok := False\<rparr>) ''t1'' complete_dto ''u1'' False
        one_task_world))) = [COMPLETED]
   \<and> queue (snd (update (good_io\<lparr>add_ok := False\<rparr>) ''t1'' complete_dto ''u1'' False one_task_world))
       = []
   \<and> fst (create (good_io\<lparr>add_ok := False\<rparr>) report_dto ''u1'' one_task_world) = Inl QueueError
   \<and> store (snd (create (good_io\<lparr>add_ok := False\<rparr>) report_dto ''u1'' one_task_world))
       = store one_task_world"
  by (simp add: update_def findOne_def save_update_def queue_add_def merge_def Let_def
      TaskResponseDto_def load_user_def good_io_def one_task_world_def empty_world_def
      complete_dto_def task_of_def no_where_def matches_def alice_def logger_def
      create_result)

text \<open>
  The batch update adds one job for each id of the request, in order, each with its own
  three attempts, whether or not the update affected a row with that id.
\<close>

lemma enqueue_each_effect:
  "add_ok x \<Longrightarrow>
     enqueue_each x ids st w = w\<lparr>queue := queue w @ map (\<lambda>i. status_job i st) ids\<rparr>"
  by (induction ids arbitrary: w) (simp_all add: queue_add_def status_job_def)

lemma batchUpdateStatus_queue:
  "save_ok x \<Longrightarrow> add_ok x \<Longrightarrow>
     queue (snd (batchUpdateStatus x ids st uid isAdmin w))
       = queue w @ map (\<lambda>i. status_job i st) ids"
  by (simp add: batchUpdateStatus_def repository_update_def Let_def enqueue_each_effect logger_def)

lemma batch_two_owner_result:
  "fst (batchUpdateStatus good_io [''t1'', ''t2''] COMPLETED ''u1'' False two_owner_world)
     = Inr \<lparr>updated = 1, failed = 1\<rparr>
   \<and> map status (store (snd (batchUpdateStatus good_io [''t1'', ''t2''] COMPLETED ''u1'' False two_owner_world)))
     = [COMPLETED, PENDING]
   \<and> queue (snd (batchUpdateStatus good_io [''t1'', ''t2''] COMPLETED ''u1'' False two_owner_world))
     = [status_job ''t1'' COMPLETED, status_job ''t2'' COMPLETED]"
  by (simp add: batchUpdateStatus_def repository_update_def Let_def queue_add_def status_job_def
      logger_def good_io_def two_owner_world_def empty_world_def task_of_def no_where_def
      matches_def)

lemma batch_two_owner_store:
  "store (snd (batchUpdateStatus good_io [''t1'', ''t2''] COMPLETED ''u1'' False two_owner_world))
     = [(task_of ''t1'' ''u1'')\<lparr>status := COMPLETED\<rparr>, task_of ''t2'' ''u2'']"
  by (simp add: batchUpdateStatus_def repository_update_def Let_def queue_add_def
      logger_def good_io_def two_owner_world_def empty_world_def task_of_def no_where_def
      matches_def)

section \<open>The worker: properties\<close>

lemma process_status_update:
  "job_name job = ''task-status-update'' \<Longrightarrow>
     process e job w =
       (case handleStatusUpdate job (logger Debug ''Processing job'' w) of
          (Inr r, w1) \<Rightarrow> (Inr r, w1)
        | (Inl err, w1) \<Rightarrow>
            if is_unrecoverable err
            then (Inl err, logger Error ''Unrecoverable error processing job'' w1)
            else (Inl err, logger Error ''Error processing job'' w1))"
  by (simp add: process_def Let_def)

lemma process_malformed:
  assumes name: "job_name job = ''task-status-update''"
    and bad: "falsy (jsget (job_data job) ''taskId'') \<or> falsy (jsget (job_data job) ''status'')
      \<or> status_of_js (jsget (job_data job) ''status'') = None"
  shows "fst (process e job v) = Inl (UnrecoverableError
           (if falsy (jsget (job_data job) ''taskId'') \<or> falsy (jsget (job_data job) ''status'')
            then ''Missing required task ID or status for update.''
            else ''Invalid task status value''))"
    and "(Error, ''Unrecoverable error processing job'') \<in> set (logs (snd (process e job v)))"
    and "store (snd (process e job v)) = store v"
    and "queue (snd (process e job v)) = queue v"
  using bad
  by (auto simp: process_status_update [OF name] handleStatusUpdate_def Let_def logger_def)

lemma run_job_failed_once:
  assumes "process e job (logger Debug ''Job started processing.'' w) = (Inl err, w1)"
    and "is_unrecoverable err \<or> \<not> attemptsMade job + 1 < attempts (job_opts job)"
  shows "run_job e job w =
     ((job\<lparr>attemptsMade := attemptsMade job + 1, stacktrace := stacktrace job @ [err]\<rparr>, Failed err),
      logger Error ''Job failed with error'' w1)"
  using assms by (subst run_job.simps) (auto simp: Let_def)

lemma run_job_retry:
  assumes "process e job (logger Debug ''Job started processing.'' w) = (Inl err, w1)"
    and "\<not> is_unrecoverable err" and "attemptsMade job + 1 < attempts (job_opts job)"
  shows "run_job e job w =
     run_job e (job\<lparr>attemptsMade := attemptsMade job + 1, stacktrace := stacktrace job @ [err]\<rparr>)
       (logger Error ''Job failed with error'' w1)"
  using assms by (subst run_job.simps) (auto simp: Let_def)

lemma run_job_completes:
  assumes "process e job (logger Debug ''Job started processing.'' w) = (Inr r, w1)"
  shows "run_job e job w =
     ((job\<lparr>attemptsMade := attemptsMade job + 1\<rparr>, Completed r), logger Debug ''Job completed.'' w1)"
  using assms by (subst run_job.simps) simp

lemma worker_completes_foreign_task:
  assumes "store w = [(task_of ''t1'' ''u1'')\<lparr>status := COMPLETED\<rparr>, task_of ''t2'' ''u2'']"
  shows "snd (fst (run_job e (new_job ''j3'' (status_job ''t2'' COMPLETED)) w))
       = Completed (StatusUpdated ''t2'' COMPLETED)
     \<and> map status (store (snd (run_job e (new_job ''j3'' (status_job ''t2'' COMPLETED)) w)))
       = [COMPLETED, COMPLETED]"
proof -
  let ?job = "new_job ''j3'' (status_job ''t2'' COMPLETED)"
  let ?v = "logger Debug ''Job started processing.'' w"
  have n: "job_name ?job = ''task-status-update''"
    by (simp add: new_job_def status_job_def)
  have p: "fst (process e ?job ?v) = Inr (StatusUpdated ''t2'' COMPLETED)"
    "map status (store (snd (process e ?job ?v))) = [COMPLETED, COMPLETED]"
    using assms unfolding process_status_update [OF n]
    by (simp_all add: handleStatusUpdate_def updateStatus_def Let_def
        new_job_def status_job_def status_update_data_def jsget_def status_of_js_def
        TaskStatus_values_def TaskResponseDto_def task_of_def logger_def)
  have "process e ?job ?v = (Inr (StatusUpdated ''t2'' COMPLETED), snd (process e ?job ?v))"
    using p(1) by (simp add: prod_eq_iff)
  from run_job_completes [OF this] p(2) show ?thesis
    by (simp add: logger_def)
qed

text \<open>
  Claim C3, at an input where the code departs from it. A user who is no admin asks to
  complete the tasks t1 and t2; t2 belongs to another user. The update affects one row
  (the result says: one updated, one failed) and t2 stays pending in the table, yet two
  jobs are enqueued, one of them for t2, which the update did not affect; the worker
  that runs this job completes t2, whose owner never asked for it.
\<close>

theorem batch_enqueues_unaffected_id:
  "fst (batchUpdateStatus good_io [''t1'', ''t2''] COMPLETED ''u1'' False two_owner_world)
     = Inr \<lparr>updated = 1, failed = 1\<rparr>
   \<and> map status (store (snd (batchUpdateStatus good_io [''t1'', ''t2''] COMPLETED ''u1'' False two_owner_world)))
     = [COMPLETED, PENDING]
   \<and> queue (snd (batchUpdateStatus good_io [''t1'', ''t2''] COMPLETED ''u1'' False two_owner_world))
     = [status_job ''t1'' COMPLETED, status_job ''t2'' COMPLETED]
   \<and> map status (store (snd (run_job steady_env (new_job ''j3'' (status_job ''t2'' COMPLETED))
        (snd (batchUpdateStatus good_io [''t1'', ''t2''] COMPLETED ''u1'' False two_owner_world)))))
     = [COMPLETED, COMPLETED]"
  using batch_two_owner_result worker_completes_foreign_task [OF batch_two_owner_store, of steady_env]
  by simp

text \<open>
  Claim C4. A \<^verbatim>\<open>task-status-update\<close> job whose \<^verbatim>\<open>taskId\<close> or \<^verbatim>\<open>status\<close> is
  missing (or falsy), or whose status is no member of the status enum, makes
  \<^verbatim>\<open>process\<close> raise an Unrecoverable error, logged at error level, with the table
  untouched. The worker fails the job after this one attempt: \<open>attemptsMade\<close> has grown
  by one (to 1 for a new job), the one error is on the job's stack trace, nothing is put
  back on the queue, and the failure is logged at error level.
\<close>

theorem malformed_job_unrecoverable:
  assumes name: "job_name job = ''task-status-update''"
    and bad: "falsy (jsget (job_data job) ''taskId'') \<or> falsy (jsget (job_data job) ''status'')
      \<or> status_of_js (jsget (job_data job) ''status'') = None"
  shows "\<exists>msg w1 w2.
      process e job w = (Inl (UnrecoverableError msg), w1)
    \<and> (Error, ''Unrecoverable error processing job'') \<in> set (logs w1)
    \<and> store w1 = store w
    \<and> run_job e job w =
        ((job\<lparr>attemptsMade := attemptsMade job + 1,
               stacktrace := stacktrace job @ [UnrecoverableError msg]\<rparr>,
          Failed (UnrecoverableError msg)), w2)
    \<and> (Error, ''Job failed with error'') \<in> set (logs w2)
    \<and> store w2 = store w \<and> queue w2 = queue w"
proof -
  let ?msg = "if falsy (jsget (job_data job) ''taskId'') \<or> falsy (jsget (job_data job) ''status'')
            then ''Missing required task ID or status for update.''
            else ''Invalid task status value''"
  let ?v = "logger Debug ''Job started processing.'' w"
  have a: "process e job w = (Inl (UnrecoverableError ?msg), snd (process e job w))"
    using process_malformed(1) [OF name bad, of e w] by (simp add: prod_eq_iff)
  have b: "process e job ?v = (Inl (UnrecoverableError ?msg), snd (process e job ?v))"
    using process_malformed(1) [OF name bad, of e ?v] by (simp add: prod_eq_iff)
  have r: "run_job e job w =
      ((job\<lparr>attemptsMade := attemptsMade job + 1, stacktrace := stacktrace job @ [UnrecoverableError ?msg]\<rparr>,
        Failed (UnrecoverableError ?msg)), logger Error ''Job failed with error'' (snd (process e job ?v)))"
    by (rule run_job_failed_once [OF b]) simp
  show ?thesis
    apply (rule exI [of _ ?msg], rule exI [of _ "snd (process e job w)"],
        rule exI [of _ "logger Error ''Job failed with error'' (snd (process e job ?v))"])
    using a r process_malformed(2,3,4) [OF name bad, of e w]
      process_malformed(3,4) [OF name bad, of e ?v]
    by (simp add: logger_def)
qed

text \<open>
  The theorem of C4 at a new job whose status is ''archived'', and at a new job whose
  payload has no status: each fails after one attempt.
\<close>

theorem malformed_job_unrecoverable_witness:
  "job_name archived_job = ''task-status-update''
   \<and> status_of_js (jsget (job_data archived_job) ''status'') = None
   \<and> fst (run_job steady_env archived_job one_task_world)
       = (archived_job\<lparr>attemptsMade := 1,
            stacktrace := [UnrecoverableError ''Invalid task status value'']\<rparr>,
          Failed (UnrecoverableError ''Invalid task status value''))
   \<and> store (snd (run_job steady_env archived_job one_task_world)) = store one_task_world
   \<and> jsget (job_data statusless_job) ''status'' = JUndefined
   \<and> fst (run_job steady_env statusless_job one_task_world)
       = (statusless_job\<lparr>attemptsMade := 1,
            stacktrace := [UnrecoverableError ''Missing required task ID or status for update.'']\<rparr>,
          Failed (UnrecoverableError ''Missing required task ID or status for update.''))"
proof -
  have n: "job_name archived_job = ''task-status-update''"
    by (simp add: archived_job_def new_job_def)
  have s: "status_of_js (jsget (job_data archived_job) ''status'') = None"
    by (simp add: archived_job_def new_job_def jsget_def status_of_js_def TaskStatus_values_def)
  have t: "\<not> falsy (jsget (job_data archived_job) ''taskId'')"
    "\<not> falsy (jsget (job_data archived_job) ''status'')"
    by (simp_all add: archived_job_def new_job_def jsget_def)
  have z: "attemptsMade archived_job = 0" "stacktrace archived_job = []"
    by (simp_all add: archived_job_def new_job_def)
  from malformed_job_unrecoverable [OF n, of steady_env one_task_world] s obtain msg w1 w2 where
    r: "process steady_env archived_job one_task_world = (Inl (UnrecoverableError msg), w1)"
      "run_job steady_env archived_job one_task_world =
        ((archived_job\<lparr>attemptsMade := attemptsMade archived_job + 1,
               stacktrace := stacktrace archived_job @ [UnrecoverableError msg]\<rparr>,
          Failed (UnrecoverableError msg)), w2)"
      "store w2 = store one_task_world"
    by blast
  have "msg = ''Invalid task status value''"
    using r(1) process_malformed(1) [OF n, of steady_env one_task_world] s t by simp
  with r(2,3) z have a: "fst (run_job steady_env archived_job one_task_world)
       = (archived_job\<lparr>attemptsMade := 1,
            stacktrace := [UnrecoverableError ''Invalid task status value'']\<rparr>,
          Failed (UnrecoverableError ''Invalid task status value''))"
    "store (snd (run_job steady_env archived_job one_task_world)) = store one_task_world"
    by simp_all
  have n': "job_name statusless_job = ''task-status-update''"
    and u: "jsget (job_data statusless_job) ''status'' = JUndefined"
    and z': "attemptsMade statusless_job = 0" "stacktrace statusless_job = []"
    by (simp_all add: statusless_job_def new_job_def jsget_def)
  from u have f: "falsy (jsget (job_data statusless_job) ''status'')"
    by simp
  from malformed_job_unrecoverable [OF n', of steady_env one_task_world] f obtain msg' v1 v2 where
    r': "process steady_env statusless_job one_task_world = (Inl (UnrecoverableError msg'), v1)"
      "run_job steady_env statusless_job one_task_world =
        ((statusless_job\<lparr>attemptsMade := attemptsMade statusless_job + 1,
               stacktrace := stacktrace statusless_job @ [UnrecoverableError msg']\<rparr>,
          Failed (UnrecoverableError msg')), v2)"
    by blast
  have "msg' = ''Missing required task ID or status for update.''"
    using r'(1) process_malformed(1) [OF n', of steady_env one_task_world] f by simp
  with r'(2) z' have b: "fst (run_job steady_env statusless_job one_task_world)
       = (statusless_job\<lparr>attemptsMade := 1,
            stacktrace := [UnrecoverableError ''Missing required task ID or status for update.'']\<rparr>,
          Failed (UnrecoverableError ''Missing required task ID or status for update.''))"
    by simp
  from n s a u b show ?thesis
    by simp
qed

lemma status_of_js_Some: "status_of_js v = Some s \<Longrightarrow> \<not> falsy v"
  by (cases v) (auto simp: status_of_js_def TaskStatus_values_def split: if_splits)

lemma process_not_found:
  assumes name: "job_name job = ''task-status-update''"
    and tid: "jsget (job_data job) ''taskId'' = JStr tid" "tid \<noteq> []"
    and st: "status_of_js (jsget (job_data job) ''status'') = Some s"
    and absent: "find (\<lambda>r. task_id r = tid) (store v) = None"
  shows "fst (process e job v) = Inl (NotFoundException ''Task not found'')"
    and "store (snd (process e job v)) = store v"
    and "queue (snd (process e job v)) = queue v"
    and "(Error, ''Error processing job'') \<in> set (logs (snd (process e job v)))"
  using tid st absent status_of_js_Some [OF st]
  by (auto simp: process_status_update [OF name] handleStatusUpdate_def updateStatus_def Let_def
      logger_def)

lemma run_job_not_found:
  assumes name: "job_name job = ''task-status-update''"
    and tid: "jsget (job_data job) ''taskId'' = JStr tid" "tid \<noteq> []"
    and st: "status_of_js (jsget (job_data job) ''status'') = Some s"
    and absent: "find (\<lambda>r. task_id r = tid) (store w) = None"
    and left: "attempts (job_opts job) - attemptsMade job = Suc n"
  shows "fst (run_job e job w) =
       (job\<lparr>attemptsMade := attempts (job_opts job),
             stacktrace := stacktrace job @ replicate (Suc n) (NotFoundException ''Task not found'')\<rparr>,
        Failed (NotFoundException ''Task not found''))
     \<and> store (snd (run_job e job w)) = store w \<and> queue (snd (run_job e job w)) = queue w"
  using name tid st absent left
proof (induction n arbitrary: job w)
  case 0
  let ?v = "logger Debug ''Job started processing.'' w"
  have ab: "find (\<lambda>r. task_id r = tid) (store ?v) = None"
    using "0.prems" by (simp add: logger_def)
  have p: "process e job ?v = (Inl (NotFoundException ''Task not found''), snd (process e job ?v))"
    using process_not_found(1) [OF "0.prems"(1,2,3,4) ab, of e] by (simp add: prod_eq_iff)
  have last: "attemptsMade job + 1 = attempts (job_opts job)"
    using "0.prems"(6) by simp
  have "run_job e job w =
     ((job\<lparr>attemptsMade := attemptsMade job + 1,
            stacktrace := stacktrace job @ [NotFoundException ''Task not found'']\<rparr>,
       Failed (NotFoundException ''Task not found'')),
      logger Error ''Job failed with error'' (snd (process e job ?v)))"
    using last by (intro run_job_failed_once [OF p]) linarith
  then show ?case
    using last process_not_found(2,3) [OF "0.prems"(1,2,3,4) ab, of e]
    by (simp add: logger_def)
next
  case (Suc n)
  let ?v = "logger Debug ''Job started processing.'' w"
  let ?err = "NotFoundException ''Task not found''"
  let ?job1 = "job\<lparr>attemptsMade := attemptsMade job + 1, stacktrace := stacktrace job @ [?err]\<rparr>"
  let ?w1 = "logger Error ''Job failed with error'' (snd (process e job ?v))"
  have ab: "find (\<lambda>r. task_id r = tid) (store ?v) = None"
    using Suc.prems by (simp add: logger_def)
  have p: "process e job ?v = (Inl ?err, snd (process e job ?v))"
    using process_not_found(1) [OF Suc.prems(1,2,3,4) ab, of e] by (simp add: prod_eq_iff)
  have more: "attemptsMade job + 1 < attempts (job_opts job)"
    using Suc.prems(6) by simp
  have step: "run_job e job w = run_job e ?job1 ?w1"
    by (rule run_job_retry [OF p _ more]) simp
  have keep: "store ?w1 = store w" "queue ?w1 = queue w"
    using process_not_found(2,3) [OF Suc.prems(1,2,3,4) ab, of e] by (simp_all add: logger_def)
  have "fst (run_job e ?job1 ?w1) =
       (?job1\<lparr>attemptsMade := attempts (job_opts ?job1),
             stacktrace := stacktrace ?job1 @ replicate (Suc n) ?err\<rparr>, Failed ?err)
     \<and> store (snd (run_job e ?job1 ?w1)) = store ?w1 \<and> queue (snd (run_job e ?job1 ?w1)) = queue ?w1"
  proof (rule Suc.IH)
    show "job_name ?job1 = ''task-status-update''" using Suc.prems(1) by simp
    show "jsget (job_data ?job1) ''taskId'' = JStr tid" using Suc.prems(2) by simp
    show "tid \<noteq> []" by (rule Suc.prems(3))
    show "status_of_js (jsget (job_data ?job1) ''status'') = Some s" using Suc.prems(4) by simp
    show "find (\<lambda>r. task_id r = tid) (store ?w1) = None" using Suc.prems(5) keep by simp
    show "attempts (job_opts ?job1) - attemptsMade ?job1 = Suc n" using Suc.prems(6) by simp
  qed
  then show ?case
    using keep by (simp add: step replicate_append_same)
qed

text \<open>
  Claim C5. A \<^verbatim>\<open>task-status-update\<close> job with a well-formed payload whose task does
  not exist makes \<^verbatim>\<open>process\<close> raise a \<^verbatim>\<open>NotFoundException\<close>, which is no
  Unrecoverable error, and leaves the table as it was. The worker therefore retries: a
  job with attempts left ends failed with \<open>attemptsMade\<close> equal to its \<open>attempts\<close>,
  having raised the same error at each of the remaining attempts, and not one more.
\<close>

theorem missing_task_retried_to_bound:
  assumes name: "job_name job = ''task-status-update''"
    and tid: "jsget (job_data job) ''taskId'' = JStr tid" "tid \<noteq> []"
    and st: "status_of_js (jsget (job_data job) ''status'') = Some s"
    and absent: "find (\<lambda>r. task_id r = tid) (store w) = None"
    and fresh: "attemptsMade job < attempts (job_opts job)"
  shows "fst (process e job w) = Inl (NotFoundException ''Task not found'')
    \<and> \<not> is_unrecoverable (NotFoundException ''Task not found'')
    \<and> store (snd (process e job w)) = store w
    \<and> fst (run_job e job w) =
        (job\<lparr>attemptsMade := attempts (job_opts job),
              stacktrace := stacktrace job
                @ replicate (attempts (job_opts job) - attemptsMade job)
                    (NotFoundException ''Task not found'')\<rparr>,
         Failed (NotFoundException ''Task not found''))
    \<and> store (snd (run_job e job w)) = store w"
proof -
  from fresh obtain n where n: "attempts (job_opts job) - attemptsMade job = Suc n"
    by (metis Suc_diff_Suc)
  show ?thesis
    using process_not_found(1,2) [OF name tid st absent, of e]
      run_job_not_found [OF name tid st absent n, of e] n
    by simp
qed

text \<open>
  The theorem of C5 at a new job with three attempts for the task t9, which no row has:
  three attempts, three errors, then failed.
\<close>

theorem missing_task_retried_to_bound_witness:
  "job_name ghost_job = ''task-status-update''
   \<and> find (\<lambda>r. task_id r = ''t9'') (store one_task_world) = None
   \<and> attempts (job_opts ghost_job) = 3
   \<and> fst (run_job steady_env ghost_job one_task_world) =
        (ghost_job\<lparr>attemptsMade := 3,
           stacktrace := [NotFoundException ''Task not found'', NotFoundException ''Task not found'',
                          NotFoundException ''Task not found'']\<rparr>,
         Failed (NotFoundException ''Task not found''))
   \<and> store (snd (run_job steady_env ghost_job one_task_world)) = store one_task_world"
proof -
  have n: "job_name ghost_job = ''task-status-update''"
    and t: "jsget (job_data ghost_job) ''taskId'' = JStr ''t9''"
    and s: "status_of_js (jsget (job_data ghost_job) ''status'') = Some COMPLETED"
    and a: "attemptsMade ghost_job = 0" "stacktrace ghost_job = []" "attempts (job_opts ghost_job) = 3"
    by (simp_all add: ghost_job_def new_job_def status_job_def status_update_data_def jsget_def
        status_of_js_def TaskStatus_values_def retry_opts_def)
  have ab: "find (\<lambda>r. task_id r = ''t9'') (store one_task_world) = None"
    by (simp add: one_task_world_def empty_world_def task_of_def)
  have f: "attemptsMade ghost_job < attempts (job_opts ghost_job)"
    using a by simp
  have "replicate 3 (NotFoundException ''Task not found'')
      = [NotFoundException ''Task not found'', NotFoundException ''Task not found'',
         NotFoundException ''Task not found'']"
    by (simp add: numeral_3_eq_3)
  with missing_task_retried_to_bound [OF n t _ s ab f, of steady_env] n ab a show ?thesis
    by simp
qed

end
